theory Spec2Isabelle
  imports Main "HOL-Library.Word"
begin

unbundle bit_operations_syntax

section \<open>Bytes and the library functions the protocol module calls\<close>

text \<open>
  A Python \<open>bytes\<close> value is a list of 8-bit words. Python integers are unbounded and are
  modelled as \<open>int\<close>; lengths are \<open>nat\<close>.
\<close>

type_synonym byte = "8 word"
type_synonym bytes = "byte list"

subsection \<open>Errors\<close>

text \<open>
  Every \<open>raise ProtocolError(...)\<close> of the source is one constructor of
  \<open>protocol_error\<close>, named after its message. \<open>StructError\<close> is the
  \<open>struct.error\<close> that \<open>struct.pack\<close> raises for a value outside the range of its
  format, \<open>UnicodeEncodeError\<close> the exception that \<open>str.encode\<close> raises; neither is a
  \<open>ProtocolError\<close>.
\<close>

datatype protocol_error =
    FrameTooLarge nat                 \<comment> \<open>"Frame too large: .. bytes"\<close>
  | FrameTooShortForLengthPrefix      \<comment> \<open>"Frame too short for length prefix"\<close>
  | IncompleteFrame nat nat           \<comment> \<open>"Incomplete frame: expected .. bytes, got .."\<close>
  | Base64DecodeError                 \<comment> \<open>"Base64 decode error: .."\<close>
  | BinaryFrameTooShort               \<comment> \<open>"Binary frame too short"\<close>
  | HashValidationFailed              \<comment> \<open>"Hash validation failed"\<close>
  | NonceMismatch int int             \<comment> \<open>"Nonce mismatch: expected .., got .."\<close>
  | InvalidNonceSequence              \<comment> \<open>"Invalid nonce sequence"\<close>
  | DumpRequiresHelloFirst            \<comment> \<open>"DUMP requires HELLO first"\<close>
  | UnknownCommand int                \<comment> \<open>"Unknown command: 0x.."\<close>

datatype error = ProtocolError protocol_error | StructError | UnicodeEncodeError

subsection \<open>\<open>struct.pack\<close> and \<open>struct.unpack\<close>, big-endian unsigned formats\<close>

definition pack_be :: "nat \<Rightarrow> int \<Rightarrow> error + bytes" where
  "pack_be k n =
     (if 0 \<le> n \<and> n < 256 ^ k
      then Inr (map (\<lambda>i. word_of_int (n div 256 ^ (k - 1 - i))) [0..<k])
      else Inl StructError)"

text \<open>The formats \<open>'B'\<close>, \<open>'>H'\<close> and \<open>'>I'\<close>: one, two and four bytes.\<close>

definition pack_B :: "int \<Rightarrow> error + bytes" where
  "pack_B = pack_be 1"

definition pack_H :: "int \<Rightarrow> error + bytes" where
  "pack_H = pack_be 2"

definition pack_I :: "int \<Rightarrow> error + bytes" where
  "pack_I = pack_be 4"

definition unpack_be :: "bytes \<Rightarrow> int" where
  "unpack_be bs = foldl (\<lambda>acc b. acc * 256 + uint b) 0 bs"

subsection \<open>\<open>hashlib.sha256\<close>\<close>

definition rotr32 :: "nat \<Rightarrow> 32 word \<Rightarrow> 32 word" where
  "rotr32 n x = drop_bit n x OR push_bit (32 - n) x"

text \<open>The round constants and the initial hash value, in decimal.\<close>

definition sha256_K :: "32 word list" where
  "sha256_K = [
     1116352408, 1899447441, 3049323471, 3921009573, 961987163, 1508970993,
     2453635748, 2870763221, 3624381080, 310598401, 607225278, 1426881987,
     1925078388, 2162078206, 2614888103, 3248222580, 3835390401, 4022224774,
     264347078, 604807628, 770255983, 1249150122, 1555081692, 1996064986,
     2554220882, 2821834349, 2952996808, 3210313671, 3336571891, 3584528711,
     113926993, 338241895, 666307205, 773529912, 1294757372, 1396182291,
     1695183700, 1986661051, 2177026350, 2456956037, 2730485921, 2820302411,
     3259730800, 3345764771, 3516065817, 3600352804, 4094571909, 275423344,
     430227734, 506948616, 659060556, 883997877, 958139571, 1322822218,
     1537002063, 1747873779, 1955562222, 2024104815, 2227730452, 2361852424,
     2428436474, 2756734187, 3204031479, 3329325298]"

definition sha256_H0 :: "32 word list" where
  "sha256_H0 = [
     1779033703, 3144134277, 1013904242, 2773480762, 1359893119, 2600822924,
     528734635, 1541459225]"

definition be_word32 :: "bytes \<Rightarrow> 32 word" where
  "be_word32 bs = foldl (\<lambda>acc b. push_bit 8 acc OR ucast b) 0 bs"

definition word32_bytes :: "32 word \<Rightarrow> bytes" where
  "word32_bytes w = [ucast (drop_bit 24 w), ucast (drop_bit 16 w), ucast (drop_bit 8 w), ucast w]"

definition word64_bytes :: "64 word \<Rightarrow> bytes" where
  "word64_bytes w = map (\<lambda>i. ucast (drop_bit (8 * (7 - i)) w)) [0..<8]"

text \<open>Padding: the bit \<open>1\<close>, zeros up to 56 modulo 64 bytes, the length in bits on 64 bits.\<close>

definition sha256_pad :: "bytes \<Rightarrow> bytes" where
  "sha256_pad m =
     m @ [0x80] @ replicate ((119 - length m mod 64) mod 64) 0
       @ word64_bytes (of_nat (8 * length m))"

primrec chunks :: "nat \<Rightarrow> nat \<Rightarrow> 'a list \<Rightarrow> 'a list list" where
  "chunks 0 n xs = []"
| "chunks (Suc k) n xs = take n xs # chunks k n (drop n xs)"

primrec sha256_schedule :: "nat \<Rightarrow> 32 word list \<Rightarrow> 32 word list" where
  "sha256_schedule 0 w = w"
| "sha256_schedule (Suc k) w =
     (let i = length w;
          s0 = rotr32 7 (w ! (i - 15)) XOR rotr32 18 (w ! (i - 15)) XOR drop_bit 3 (w ! (i - 15));
          s1 = rotr32 17 (w ! (i - 2)) XOR rotr32 19 (w ! (i - 2)) XOR drop_bit 10 (w ! (i - 2))
      in sha256_schedule k (w @ [w ! (i - 16) + s0 + w ! (i - 7) + s1]))"

definition sha256_round :: "32 word list \<Rightarrow> 32 word \<times> 32 word \<Rightarrow> 32 word list" where
  "sha256_round v kw =
     (let a = v ! 0; b = v ! 1; c = v ! 2; d = v ! 3; e = v ! 4; f = v ! 5; g = v ! 6; h = v ! 7;
          S1 = rotr32 6 e XOR rotr32 11 e XOR rotr32 25 e;
          ch = (e AND f) XOR (NOT e AND g);
          t1 = h + S1 + ch + fst kw + snd kw;
          S0 = rotr32 2 a XOR rotr32 13 a XOR rotr32 22 a;
          mj = (a AND b) XOR (a AND c) XOR (b AND c);
          t2 = S0 + mj
      in [t1 + t2, a, b, c, d + t1, e, f, g])"

definition sha256_block :: "32 word list \<Rightarrow> bytes \<Rightarrow> 32 word list" where
  "sha256_block hs blk =
     (let w = sha256_schedule 48 (map be_word32 (chunks 16 4 blk))
      in map2 (+) hs (foldl sha256_round hs (zip sha256_K w)))"

definition sha256 :: "bytes \<Rightarrow> bytes" where
  "sha256 m =
     (let p = sha256_pad m
      in concat (map word32_bytes (foldl sha256_block sha256_H0 (chunks (length p div 64) 64 p))))"

subsection \<open>\<open>base64.b64encode\<close> and \<open>base64.b64decode\<close>\<close>

definition b64_alphabet :: bytes where
  "b64_alphabet =
     map of_char ''ABCDEFGHIJKLMNOPQRSTUVWXYZabcdefghijklmnopqrstuvwxyz0123456789+/''"

definition BASE64_PAD :: byte where
  "BASE64_PAD = of_char CHR ''=''"

primrec index_of :: "'a \<Rightarrow> 'a list \<Rightarrow> nat" where
  "index_of x [] = 0"
| "index_of x (y # ys) = (if x = y then 0 else Suc (index_of x ys))"

definition table_b2a_base64 :: "byte \<Rightarrow> byte" where
  "table_b2a_base64 v = b64_alphabet ! unat v"

text \<open>The decoding table: the position in the alphabet, 64 for a byte outside it.\<close>

definition table_a2b_base64 :: "byte \<Rightarrow> byte" where
  "table_a2b_base64 c = of_nat (index_of c b64_alphabet)"

text \<open>
  \<open>base64.b64encode\<close>: three bytes give four characters of the alphabet; a last group of
  one or two bytes is completed with \<open>=\<close>.
\<close>

fun b64encode :: "bytes \<Rightarrow> bytes" where
  "b64encode (a # b # c # rest) =
     table_b2a_base64 (drop_bit 2 a)
     # table_b2a_base64 (push_bit 4 (a AND 3) OR drop_bit 4 b)
     # table_b2a_base64 (push_bit 2 (b AND 0xf) OR drop_bit 6 c)
     # table_b2a_base64 (c AND 0x3f)
     # b64encode rest"
| "b64encode [a, b] =
     [table_b2a_base64 (drop_bit 2 a),
      table_b2a_base64 (push_bit 4 (a AND 3) OR drop_bit 4 b),
      table_b2a_base64 (push_bit 2 (b AND 0xf)),
      BASE64_PAD]"
| "b64encode [a] =
     [table_b2a_base64 (drop_bit 2 a),
      table_b2a_base64 (push_bit 4 (a AND 3)),
      BASE64_PAD, BASE64_PAD]"
| "b64encode [] = []"

text \<open>
  \<open>base64.b64decode(s)\<close> with its default \<open>validate=False\<close> is CPython's
  \<open>binascii.a2b_base64\<close> in non-strict mode: a loop over the input that skips every byte
  outside the alphabet, collects the others four at a time (\<open>quad_pos\<close>, \<open>leftchar\<close>),
  stops at a pad sequence that completes a quad, and fails (\<open>None\<close>) when the input ends
  inside a quad.
\<close>

fun a2b_base64_loop :: "nat \<Rightarrow> byte \<Rightarrow> nat \<Rightarrow> bytes \<Rightarrow> bytes \<Rightarrow> bytes option" where
  "a2b_base64_loop quad_pos leftchar pads out [] =
     (if quad_pos \<noteq> 0 then None else Some out)"
| "a2b_base64_loop quad_pos leftchar pads out (c # cs) =
     (if c = BASE64_PAD then
        (if quad_pos \<ge> 2 \<and> quad_pos + (pads + 1) \<ge> 4 then Some out
         else a2b_base64_loop quad_pos leftchar (if quad_pos \<ge> 2 then pads + 1 else pads) out cs)
      else
        (let this_ch = table_a2b_base64 c in
         if this_ch \<ge> 64 then a2b_base64_loop quad_pos leftchar pads out cs
         else if quad_pos = 0 then a2b_base64_loop 1 this_ch 0 out cs
         else if quad_pos = 1 then
           a2b_base64_loop 2 (this_ch AND 0x0f) 0
             (out @ [push_bit 2 leftchar OR drop_bit 4 this_ch]) cs
         else if quad_pos = 2 then
           a2b_base64_loop 3 (this_ch AND 0x03) 0
             (out @ [push_bit 4 leftchar OR drop_bit 2 this_ch]) cs
         else
           a2b_base64_loop 0 0 0 (out @ [push_bit 6 leftchar OR this_ch]) cs))"

definition b64decode :: "bytes \<Rightarrow> bytes option" where
  "b64decode s = a2b_base64_loop 0 0 0 [] s"

subsection \<open>\<open>str.encode\<close>\<close>

text \<open>
  A Python string is a sequence of code points, numbers below \<open>0x110000\<close>.
  \<open>s.encode()\<close> is the UTF-8 encoding with strict error handling: one to four bytes per
  code point, and \<open>UnicodeEncodeError\<close> at a surrogate (\<open>0xD800\<close> to \<open>0xDFFF\<close>). A number
  that is not a code point cannot stand in a Python string; the model gives it the same
  error.
\<close>

type_synonym str = "nat list"

definition utf8_encode_char :: "nat \<Rightarrow> error + bytes" where
  "utf8_encode_char c =
     (if c < 0x80 then Inr [of_nat c]
      else if c < 0x800 then Inr [of_nat (0xC0 + c div 64), of_nat (0x80 + c mod 64)]
      else if c < 0x10000 then
        (if 0xD800 \<le> c \<and> c < 0xE000 then Inl UnicodeEncodeError
         else Inr [of_nat (0xE0 + c div 4096), of_nat (0x80 + c div 64 mod 64),
                   of_nat (0x80 + c mod 64)])
      else if c < 0x110000 then
        Inr [of_nat (0xF0 + c div 262144), of_nat (0x80 + c div 4096 mod 64),
             of_nat (0x80 + c div 64 mod 64), of_nat (0x80 + c mod 64)]
      else Inl UnicodeEncodeError)"

fun str_encode :: "str \<Rightarrow> error + bytes" where
  "str_encode [] = Inr []"
| "str_encode (c # cs) =
     (case utf8_encode_char c of
        Inl e \<Rightarrow> Inl e
      | Inr b \<Rightarrow>
          (case str_encode cs of
             Inl e \<Rightarrow> Inl e
           | Inr bs \<Rightarrow> Inr (b @ bs)))"

section \<open>\<open>minitel/protocol.py\<close>\<close>

subsection \<open>\<open>Command\<close>\<close>

definition HELLO :: int where "HELLO = 0x01"
definition DUMP :: int where "DUMP = 0x02"
definition STOP_CMD :: int where "STOP_CMD = 0x04"
definition HELLO_ACK :: int where "HELLO_ACK = 0x81"
definition DUMP_FAILED :: int where "DUMP_FAILED = 0x82"
definition DUMP_OK :: int where "DUMP_OK = 0x83"
definition STOP_OK :: int where "STOP_OK = 0x84"

subsection \<open>\<open>Frame\<close>\<close>

record frame =
  cmd :: int
  nonce :: int
  payload :: bytes
  hash :: bytes

text \<open>\<open>Frame._calculate_hash\<close>: SHA-256 of CMD + NONCE + PAYLOAD.\<close>

definition calculate_hash :: "int \<Rightarrow> int \<Rightarrow> bytes \<Rightarrow> error + bytes" where
  "calculate_hash c n p =
     (case pack_B c of
        Inl e \<Rightarrow> Inl e
      | Inr cb \<Rightarrow>
          (case pack_I n of
             Inl e \<Rightarrow> Inl e
           | Inr nb \<Rightarrow> Inr (sha256 (cb @ nb @ p))))"

text \<open>
  \<open>Frame.__init__\<close>: stores the three fields and the hash computed from them; it raises
  what \<open>struct.pack\<close> raises when the command or the nonce is out of range.
\<close>

definition Frame :: "int \<Rightarrow> int \<Rightarrow> bytes \<Rightarrow> error + frame" where
  "Frame c n p =
     (case calculate_hash c n p of
        Inl e \<Rightarrow> Inl e
      | Inr h \<Rightarrow> Inr \<lparr>cmd = c, nonce = n, payload = p, hash = h\<rparr>)"

text \<open>\<open>Frame.encode\<close>: LEN (2 bytes) | DATA_B64.\<close>

definition encode :: "frame \<Rightarrow> error + bytes" where
  "encode self =
     (case pack_B (cmd self) of
        Inl e \<Rightarrow> Inl e
      | Inr cb \<Rightarrow>
          (case pack_I (nonce self) of
             Inl e \<Rightarrow> Inl e
           | Inr nb \<Rightarrow>
               (let binary_frame = cb @ nb @ payload self @ hash self;
                    b64_data = b64encode binary_frame;
                    len = length b64_data
                in if len > 65535 then Inl (ProtocolError (FrameTooLarge len))
                   else (case pack_H (int len) of
                           Inl e \<Rightarrow> Inl e
                         | Inr lb \<Rightarrow> Inr (lb @ b64_data)))))"

text \<open>
  \<open>Frame.decode\<close>. The slices are written with \<open>take\<close> and \<open>drop\<close>:
  \<open>data[2:2 + length]\<close> is \<open>take length (drop 2 data)\<close>, and on a binary frame of at
  least 37 bytes \<open>binary_frame[5:-32]\<close> is \<open>drop 5 (take (len - 32) binary_frame)\<close> and
  \<open>binary_frame[-32:]\<close> is \<open>drop (len - 32) binary_frame\<close>.
\<close>

definition decode :: "bytes \<Rightarrow> error + frame" where
  "decode data =
     (if length data < 2 then Inl (ProtocolError FrameTooShortForLengthPrefix)
      else
        (let len = nat (unpack_be (take 2 data)) in
         if length data < 2 + len
         then Inl (ProtocolError (IncompleteFrame len (length data - 2)))
         else
           (case b64decode (take len (drop 2 data)) of
              None \<Rightarrow> Inl (ProtocolError Base64DecodeError)
            | Some binary_frame \<Rightarrow>
                if length binary_frame < 37 then Inl (ProtocolError BinaryFrameTooShort)
                else
                  (let c = unpack_be (take 1 binary_frame);
                       n = unpack_be (take 4 (drop 1 binary_frame));
                       p = drop 5 (take (length binary_frame - 32) binary_frame);
                       received_hash = drop (length binary_frame - 32) binary_frame
                   in case Frame c n p of
                        Inl e \<Rightarrow> Inl e
                      | Inr fr \<Rightarrow>
                          if hash fr \<noteq> received_hash
                          then Inl (ProtocolError HashValidationFailed)
                          else Inr fr))))"

subsection \<open>\<open>MiniTelProtocol\<close>\<close>

text \<open>
  The handler's only field is its nonce counter (\<open>self.nonce\<close>; named \<open>self_nonce\<close> here,
  since \<open>nonce\<close> is the field of a frame). Each method returns its result together with
  the handler after the call.
\<close>

record MiniTelProtocol =
  self_nonce :: int

definition MiniTelProtocol_init :: MiniTelProtocol where
  "MiniTelProtocol_init = \<lparr>self_nonce = 0\<rparr>"

definition create_hello_frame :: "MiniTelProtocol \<Rightarrow> (error + frame) \<times> MiniTelProtocol" where
  "create_hello_frame self = (Frame HELLO (self_nonce self) [], self)"

definition create_dump_frame :: "MiniTelProtocol \<Rightarrow> (error + frame) \<times> MiniTelProtocol" where
  "create_dump_frame self = (Frame DUMP (self_nonce self) [], self)"

definition create_stop_frame :: "MiniTelProtocol \<Rightarrow> (error + frame) \<times> MiniTelProtocol" where
  "create_stop_frame self = (Frame STOP_CMD (self_nonce self) [], self)"

definition update_nonce :: "MiniTelProtocol \<Rightarrow> int \<Rightarrow> (error + unit) \<times> MiniTelProtocol" where
  "update_nonce self received_nonce =
     (let expected_nonce = self_nonce self + 1 in
      if received_nonce \<noteq> expected_nonce
      then (Inl (ProtocolError (NonceMismatch expected_nonce received_nonce)), self)
      else (Inr (), self\<lparr>self_nonce := received_nonce + 1\<rparr>))"

section \<open>\<open>minitel/server.py\<close>\<close>

subsection \<open>\<open>ConnectionState\<close>\<close>

text \<open>
  The two timestamps (\<open>connected_at\<close>, \<open>last_activity\<close>) are left out: they are read only
  by the idle timeout. \<open>last_command\<close> is \<open>None\<close> or a command code.
\<close>

record ConnectionState =
  expected_client_nonce :: int
  server_nonce :: int
  last_command :: "int option"
  dump_count :: int

definition ConnectionState_init :: ConnectionState where
  "ConnectionState_init =
     \<lparr>expected_client_nonce = 0, server_nonce = 1, last_command = None, dump_count = 0\<rparr>"

subsection \<open>\<open>MiniTelServer\<close>\<close>

record MiniTelServer =
  secret :: str

definition MiniTelServer_init :: MiniTelServer where
  "MiniTelServer_init = \<lparr>secret = map of_char ''FLAG{MINITEL_MASTER_2025}''\<rparr>"

text \<open>
  \<open>MiniTelServer._process_command\<close>. The state is mutated in place in the source, so the
  model returns the state as it is when the call returns or raises.
\<close>

definition process_command ::
  "MiniTelServer \<Rightarrow> frame \<Rightarrow> ConnectionState \<Rightarrow> (error + frame) \<times> ConnectionState" where
  "process_command self fr state =
     (if nonce fr \<noteq> expected_client_nonce state
      then (Inl (ProtocolError InvalidNonceSequence), state)
      else if cmd fr = HELLO then
        (let state1 = state\<lparr>last_command := Some HELLO, dump_count := 0\<rparr> in
         case Frame HELLO_ACK (server_nonce state1) [] of
           Inl e \<Rightarrow> (Inl e, state1)
         | Inr response \<Rightarrow>
             (Inr response,
              state1\<lparr>expected_client_nonce := expected_client_nonce state1 + 2,
                     server_nonce := server_nonce state1 + 2\<rparr>))
      else if cmd fr = DUMP then
        (if last_command state \<noteq> Some HELLO
         then (Inl (ProtocolError DumpRequiresHelloFirst), state)
         else
           (let state1 = state\<lparr>dump_count := dump_count state + 1\<rparr> in
            case (if dump_count state1 = 1
                  then Frame DUMP_FAILED (server_nonce state1) []
                  else (case str_encode (secret self) of
                          Inl e \<Rightarrow> Inl e
                        | Inr bs \<Rightarrow> Frame DUMP_OK (server_nonce state1) bs)) of
              Inl e \<Rightarrow> (Inl e, state1)
            | Inr response \<Rightarrow>
                (Inr response,
                 state1\<lparr>expected_client_nonce := expected_client_nonce state1 + 2,
                        server_nonce := server_nonce state1 + 2\<rparr>)))
      else if cmd fr = STOP_CMD then
        (case Frame STOP_OK (server_nonce state) [] of
           Inl e \<Rightarrow> (Inl e, state)
         | Inr response \<Rightarrow>
             (Inr response,
              state\<lparr>expected_client_nonce := expected_client_nonce state + 2,
                    server_nonce := server_nonce state + 2\<rparr>))
      else (Inl (ProtocolError (UnknownCommand (cmd fr))), state))"

text \<open>
  One turn of the loop of \<open>MiniTelServer._handle_client\<close>, once the length prefix and the
  announced number of bytes have been read into \<open>data\<close>: decode, process, encode and send.
  \<open>Inr out\<close> is the byte string sent to the client; \<open>Inl e\<close> is an exception, after which
  the loop is left without anything being sent and the socket is closed.
\<close>

definition handle_frame ::
  "MiniTelServer \<Rightarrow> bytes \<Rightarrow> ConnectionState \<Rightarrow> (error + bytes) \<times> ConnectionState" where
  "handle_frame self data state =
     (case decode data of
        Inl e \<Rightarrow> (Inl e, state)
      | Inr fr \<Rightarrow>
          (case process_command self fr state of
             (Inl e, state') \<Rightarrow> (Inl e, state')
           | (Inr response, state') \<Rightarrow>
               (case encode response of
                  Inl e \<Rightarrow> (Inl e, state')
                | Inr out \<Rightarrow> (Inr out, state'))))"

text \<open>
  The loop itself, on the frames a client sends one after the other: the byte strings
  sent back, whether the loop is still running (\<open>False\<close> once an exception has closed the
  connection), and the state.
\<close>

fun handle_client ::
  "MiniTelServer \<Rightarrow> bytes list \<Rightarrow> ConnectionState \<Rightarrow> bytes list \<times> bool \<times> ConnectionState" where
  "handle_client self [] state = ([], True, state)"
| "handle_client self (data # rest) state =
     (case handle_frame self data state of
        (Inl e, state') \<Rightarrow> ([], False, state')
      | (Inr out, state') \<Rightarrow>
          (case handle_client self rest state' of
             (outs, running, state'') \<Rightarrow> (out # outs, running, state'')))"

section \<open>\<open>minitel/enhanced_client.py\<close>\<close>

text \<open>
  \<open>EnhancedMiniTelClient.connect\<close>. The transport is the environment: \<open>transport i\<close> tells
  whether the \<open>i\<close>-th coming call of \<open>socket.connect\<close> succeeds (a failure is a
  \<open>socket.error\<close>). The calls of \<open>time.sleep\<close> are recorded in a list of durations. The
  session recorder is not modelled.
\<close>

record EnhancedMiniTelClient =
  max_retries :: int
  connection_attempts :: int
  connected :: bool

function connect_loop ::
  "(nat \<Rightarrow> bool) \<Rightarrow> EnhancedMiniTelClient \<Rightarrow> int list
     \<Rightarrow> bool \<times> EnhancedMiniTelClient \<times> int list" where
  "connect_loop transport self slept =
     (if connection_attempts self < max_retries self then
        (if transport 0 then (True, self\<lparr>connected := True\<rparr>, slept)
         else
           connect_loop (\<lambda>i. transport (Suc i))
             (self\<lparr>connection_attempts := connection_attempts self + 1\<rparr>)
             (if connection_attempts self + 1 < max_retries self
              then slept @ [2 ^ nat (connection_attempts self + 1)]
              else slept))
      else (False, self, slept))"
  by pat_completeness auto
termination
  by (relation "measure (\<lambda>(t, self, s). nat (max_retries self - connection_attempts self))") auto

declare connect_loop.simps [simp del]

definition connect ::
  "EnhancedMiniTelClient \<Rightarrow> (nat \<Rightarrow> bool) \<Rightarrow> bool \<times> EnhancedMiniTelClient \<times> int list" where
  "connect self transport = connect_loop transport (self\<lparr>connection_attempts := 0\<rparr>) []"

section \<open>Notions used to state the properties\<close>

text \<open>
  The wire layout in the words of the specification: the binary frame is
  command (1 byte), nonce (4 bytes, big-endian), payload, digest (32 bytes); the encoded frame
  is the 2-byte big-endian length of the base64 text followed by the base64 text.
\<close>

definition binary_frame :: "frame \<Rightarrow> bytes" where
  "binary_frame fr =
     [word_of_int (cmd fr)]
     @ [word_of_int (nonce fr div 16777216), word_of_int (nonce fr div 65536),
        word_of_int (nonce fr div 256), word_of_int (nonce fr)]
     @ payload fr @ hash fr"

definition length_prefix :: "nat \<Rightarrow> bytes" where
  "length_prefix l = [word_of_int (int l div 256), word_of_int (int l)]"

text \<open>The encoded frame, in the same words.\<close>

definition wire :: "frame \<Rightarrow> bytes" where
  "wire fr = length_prefix (length (b64encode (binary_frame fr))) @ b64encode (binary_frame fr)"

text \<open>
  What holds of the two counters of a connection at every turn of the handler's loop: the
  expected client nonce is even and not negative, the server nonce is one more.
\<close>

definition connection_invariant :: "ConnectionState \<Rightarrow> bool" where
  "connection_invariant state \<longleftrightarrow>
     0 \<le> expected_client_nonce state \<and> even (expected_client_nonce state)
     \<and> server_nonce state = expected_client_nonce state + 1"

text \<open>Both counters moved on by one exchange.\<close>

definition advance :: "ConnectionState \<Rightarrow> ConnectionState" where
  "advance state = state\<lparr>expected_client_nonce := expected_client_nonce state + 2,
                          server_nonce := server_nonce state + 2\<rparr>"

text \<open>
  An incoming byte string carries the opcode \<open>c\<close> when it decodes to a frame with that
  command.
\<close>

definition carries :: "int \<Rightarrow> bytes \<Rightarrow> bool" where
  "carries c data = (case decode data of Inl e \<Rightarrow> False | Inr fr \<Rightarrow> cmd fr = c)"

section \<open>Properties of the library functions\<close>

subsection \<open>Base64\<close>

lemma m2: "(3 :: byte) = mask 2" and m4: "(15 :: byte) = mask 4" and m6: "(63 :: byte) = mask 6"
  by (simp_all add: mask_eq_exp_minus_1)

lemma Suc_Suc_diff2: "Suc (Suc (n - 2)) = (if 2 \<le> n then n else 2)"
  by auto

lemma lt64_iff: "(x :: byte) < 64 \<longleftrightarrow> x AND mask 6 = x"
  using mask_eq_iff_w2p [of 6 x] by (simp add: word_size)

lemma lt64_bitI: "(\<And>n. bit (x :: byte) n \<Longrightarrow> n < 6) \<Longrightarrow> x < 64"
  unfolding lt64_iff by (rule bit_word_eqI) (auto simp: bit_simps)

lemma sextet1: "drop_bit 2 (a :: byte) < 64"
  by (rule lt64_bitI) (auto simp: bit_simps dest: bit_imp_le_length)

lemma sextet2: "push_bit 4 ((a :: byte) AND 3) OR drop_bit 4 (b :: byte) < 64"
  unfolding m2
  apply (rule lt64_bitI)
  apply (simp only: bit_simps o_apply)
  apply (auto simp: Suc_Suc_diff2 dest: bit_imp_le_length split: if_splits)
  done

lemma sextet2_last: "push_bit 4 ((a :: byte) AND 3) < 64"
  unfolding m2
  apply (rule lt64_bitI)
  apply (simp only: bit_simps o_apply)
  apply (auto simp: Suc_Suc_diff2 dest: bit_imp_le_length split: if_splits)
  done

lemma sextet3: "push_bit 2 ((b :: byte) AND 0xf) OR drop_bit 6 (c :: byte) < 64"
  unfolding m4
  apply (rule lt64_bitI)
  apply (simp only: bit_simps o_apply)
  apply (auto simp: Suc_Suc_diff2 dest: bit_imp_le_length split: if_splits)
  done

lemma sextet3_last: "push_bit 2 ((b :: byte) AND 0xf) < 64"
  unfolding m4
  apply (rule lt64_bitI)
  apply (simp only: bit_simps o_apply)
  apply (auto simp: Suc_Suc_diff2 dest: bit_imp_le_length split: if_splits)
  done

lemma sextet4: "(c :: byte) AND 0x3f < 64"
  unfolding m6
  apply (rule lt64_bitI)
  apply (simp only: bit_simps o_apply)
  done

lemma join1:
  "push_bit 2 (drop_bit 2 (a :: byte))
     OR drop_bit 4 (push_bit 4 (a AND 3) OR drop_bit 4 (b :: byte)) = a"
  unfolding m2
  apply (rule bit_word_eqI)
  apply (simp only: bit_simps o_apply)
  apply (auto simp: Suc_Suc_diff2 dest: bit_imp_le_length split: if_splits)
  done

lemma join1_last:
  "push_bit 2 (drop_bit 2 (a :: byte)) OR drop_bit 4 (push_bit 4 (a AND 3)) = a"
  unfolding m2
  apply (rule bit_word_eqI)
  apply (simp only: bit_simps o_apply)
  apply (auto simp: Suc_Suc_diff2 dest: bit_imp_le_length split: if_splits)
  done

lemma join2:
  "push_bit 4 ((push_bit 4 ((a :: byte) AND 3) OR drop_bit 4 b) AND 0xf)
     OR drop_bit 2 (push_bit 2 ((b :: byte) AND 0xf) OR drop_bit 6 (c :: byte)) = b"
  unfolding m2 m4
  apply (rule bit_word_eqI)
  apply (simp only: bit_simps o_apply)
  apply (auto simp: Suc_Suc_diff2 dest: bit_imp_le_length split: if_splits)
  done

lemma join2_last:
  "push_bit 4 ((push_bit 4 ((a :: byte) AND 3) OR drop_bit 4 b) AND 0xf)
     OR drop_bit 2 (push_bit 2 ((b :: byte) AND 0xf)) = b"
  unfolding m2 m4
  apply (rule bit_word_eqI)
  apply (simp only: bit_simps o_apply)
  apply (auto simp: Suc_Suc_diff2 dest: bit_imp_le_length split: if_splits)
  done

lemma join3:
  "push_bit 6 ((push_bit 2 ((b :: byte) AND 0xf) OR drop_bit 6 (c :: byte)) AND 3)
     OR (c AND 0x3f) = c"
  unfolding m2 m4 m6
  apply (rule bit_word_eqI)
  apply (simp only: bit_simps o_apply)
  apply (auto simp: Suc_Suc_diff2 dest: bit_imp_le_length split: if_splits)
  done

lemma index_of_nth: "distinct xs \<Longrightarrow> i < length xs \<Longrightarrow> index_of (xs ! i) xs = i"
proof (induction xs arbitrary: i)
  case Nil
  then show ?case by simp
next
  case (Cons y ys)
  then show ?case by (cases i) auto
qed

lemma distinct_b64_alphabet: "distinct b64_alphabet"
  by (simp add: b64_alphabet_def)

lemma length_b64_alphabet: "length b64_alphabet = 64"
  by (simp add: b64_alphabet_def)

lemma pad_not_in_alphabet: "BASE64_PAD \<notin> set b64_alphabet"
  by (simp add: b64_alphabet_def BASE64_PAD_def)

lemma table_a2b_b2a:
  assumes "v < 64"
  shows "table_a2b_base64 (table_b2a_base64 v) = v"
proof -
  from assms have "unat v < 64" by (simp add: word_less_nat_alt)
  then show ?thesis
    by (simp add: table_a2b_base64_def table_b2a_base64_def index_of_nth
        distinct_b64_alphabet length_b64_alphabet)
qed

lemma table_b2a_not_pad:
  assumes "v < 64"
  shows "table_b2a_base64 v \<noteq> BASE64_PAD"
proof -
  from assms have "unat v < 64" by (simp add: word_less_nat_alt)
  then have "table_b2a_base64 v \<in> set b64_alphabet"
    by (simp add: table_b2a_base64_def length_b64_alphabet)
  with pad_not_in_alphabet show ?thesis by auto
qed

text \<open>The steps of the decoding loop on the characters produced by the encoder.\<close>

lemma a2b_step0:
  "v < 64 \<Longrightarrow> a2b_base64_loop 0 l p out (table_b2a_base64 v # cs) = a2b_base64_loop 1 v 0 out cs"
  by (simp add: table_a2b_b2a table_b2a_not_pad Let_def not_le [symmetric])

lemma a2b_step1:
  "v < 64 \<Longrightarrow> a2b_base64_loop 1 l p out (table_b2a_base64 v # cs) =
     a2b_base64_loop 2 (v AND 0x0f) 0 (out @ [push_bit 2 l OR drop_bit 4 v]) cs"
  by (simp add: table_a2b_b2a table_b2a_not_pad Let_def not_le [symmetric])

lemma a2b_step2:
  "v < 64 \<Longrightarrow> a2b_base64_loop 2 l p out (table_b2a_base64 v # cs) =
     a2b_base64_loop 3 (v AND 0x03) 0 (out @ [push_bit 4 l OR drop_bit 2 v]) cs"
  by (simp add: table_a2b_b2a table_b2a_not_pad Let_def not_le [symmetric])

lemma a2b_step3:
  "v < 64 \<Longrightarrow> a2b_base64_loop 3 l p out (table_b2a_base64 v # cs) =
     a2b_base64_loop 0 0 0 (out @ [push_bit 6 l OR v]) cs"
  by (simp add: table_a2b_b2a table_b2a_not_pad Let_def not_le [symmetric])

lemma a2b_pad2: "a2b_base64_loop 2 l 0 out (BASE64_PAD # BASE64_PAD # cs) = Some out"
  by simp

lemma a2b_pad3: "a2b_base64_loop 3 l 0 out (BASE64_PAD # cs) = Some out"
  by simp

lemma a2b_loop_b64encode:
  "a2b_base64_loop 0 l p out (b64encode xs) = Some (out @ xs)"
proof (induction xs arbitrary: l p out rule: b64encode.induct)
  case (1 a b c rest)
  show ?case
    by (simp only: b64encode.simps a2b_step0 [OF sextet1] a2b_step1 [OF sextet2]
        a2b_step2 [OF sextet3] a2b_step3 [OF sextet4] join1 join2 join3 1
        append_assoc append_Cons append_Nil)
next
  case (2 a b)
  show ?case
    by (simp only: b64encode.simps a2b_step0 [OF sextet1] a2b_step1 [OF sextet2]
        a2b_step2 [OF sextet3_last] a2b_pad3 join1 join2_last
        append_assoc append_Cons append_Nil)
next
  case (3 a)
  show ?case
    by (simp only: b64encode.simps a2b_step0 [OF sextet1] a2b_step1 [OF sextet2_last]
        a2b_pad2 join1_last append_assoc append_Cons append_Nil)
next
  case 4
  show ?case by simp
qed

lemma b64decode_b64encode: "b64decode (b64encode xs) = Some xs"
  by (simp add: b64decode_def a2b_loop_b64encode)


subsection \<open>Packing and unpacking\<close>

lemma upt_small: "[0..<4] = [0, 1, 2, 3]" "[0..<2] = [0, 1]" "[0..<1] = [0]"
  by (simp_all add: upt_rec)

lemma uint_byte_of_int: "uint (word_of_int k :: byte) = k mod 256"
  by (simp add: uint_word_of_int)

lemma pack_B_Inr:
  "pack_B c = Inr cb \<Longrightarrow> 0 \<le> c \<and> c < 256 \<and> cb = [word_of_int c]"
  by (auto simp: pack_B_def pack_be_def split: if_splits)

lemma pack_I_Inr:
  "pack_I n = Inr nb \<Longrightarrow> 0 \<le> n \<and> n < 4294967296 \<and>
     nb = [word_of_int (n div 16777216), word_of_int (n div 65536), word_of_int (n div 256),
           word_of_int n]"
  by (auto simp: pack_I_def pack_be_def upt_small split: if_splits)

lemma pack_B_range: "0 \<le> c \<Longrightarrow> c < 256 \<Longrightarrow> pack_B c = Inr [word_of_int c]"
  by (simp add: pack_B_def pack_be_def)

lemma pack_I_range:
  "0 \<le> n \<Longrightarrow> n < 4294967296 \<Longrightarrow>
     pack_I n = Inr [word_of_int (n div 16777216), word_of_int (n div 65536),
                     word_of_int (n div 256), word_of_int n]"
  by (simp add: pack_I_def pack_be_def upt_small)

lemma pack_H_range:
  "0 \<le> n \<Longrightarrow> n < 65536 \<Longrightarrow> pack_H n = Inr [word_of_int (n div 256), word_of_int n]"
  by (simp add: pack_H_def pack_be_def upt_small)

lemma unpack_be_1: "0 \<le> c \<Longrightarrow> c < 256 \<Longrightarrow> unpack_be [word_of_int c] = c"
  by (simp add: unpack_be_def uint_byte_of_int)

lemma unpack_be_2:
  "0 \<le> n \<Longrightarrow> n < 65536 \<Longrightarrow> unpack_be [word_of_int (n div 256), word_of_int n] = n"
  by (simp add: unpack_be_def uint_byte_of_int)

lemma unpack_be_4:
  assumes "0 \<le> n" and "n < 4294967296"
  shows "unpack_be [word_of_int (n div 16777216), word_of_int (n div 65536),
                    word_of_int (n div 256), word_of_int n] = n"
proof -
  define q1 where "q1 = n div 256"
  define q2 where "q2 = q1 div 256"
  define q3 where "q3 = q2 div 256"
  define r0 where "r0 = n mod 256"
  define r1 where "r1 = q1 mod 256"
  define r2 where "r2 = q2 mod 256"
  have a: "n div 65536 = q2" and b: "n div 16777216 = q3"
    by (simp_all add: q1_def q2_def q3_def zdiv_zmult2_eq)
  have e1: "256 * q1 + r0 = n" and e2: "256 * q2 + r1 = q1" and e3: "256 * q3 + r2 = q2"
    unfolding q1_def q2_def q3_def r0_def r1_def r2_def by (rule mult_div_mod_eq)+
  have r: "0 \<le> r0" "r0 < 256" "0 \<le> r1" "r1 < 256" "0 \<le> r2" "r2 < 256"
    unfolding r0_def r1_def r2_def by simp_all
  have "0 \<le> q3" and "q3 < 256"
    using assms e1 e2 e3 r by linarith+
  then have e4: "q3 mod 256 = q3" by simp
  have "unpack_be [word_of_int q3, word_of_int q2, word_of_int q1, word_of_int n]
          = ((q3 mod 256 * 256 + q2 mod 256) * 256 + q1 mod 256) * 256 + n mod 256"
    by (simp only: unpack_be_def foldl.simps uint_byte_of_int mult_zero_left add_0)
  also have "\<dots> = ((q3 * 256 + r2) * 256 + r1) * 256 + r0"
    by (simp only: e4 r0_def r1_def r2_def)
  also have "\<dots> = 256 * (256 * (256 * q3 + r2) + r1) + r0"
    by (simp only: mult.commute)
  also have "\<dots> = n"
    by (simp only: e1 e2 e3)
  finally show ?thesis
    unfolding a b q1_def [symmetric] .
qed

subsection \<open>The digest has 32 bytes\<close>

lemma length_foldl_round: "length v = 8 \<Longrightarrow> length (foldl sha256_round v kws) = 8"
  by (induction kws arbitrary: v) (simp_all add: sha256_round_def Let_def)

lemma length_sha256_block: "length hs = 8 \<Longrightarrow> length (sha256_block hs blk) = 8"
  by (simp add: sha256_block_def Let_def length_foldl_round)

lemma length_foldl_block: "length hs = 8 \<Longrightarrow> length (foldl sha256_block hs blks) = 8"
  by (induction blks arbitrary: hs) (simp_all add: length_sha256_block)

lemma length_concat_word32: "length (concat (map word32_bytes ws)) = 4 * length ws"
  by (induction ws) (simp_all add: word32_bytes_def)

lemma length_sha256: "length (sha256 m) = 32"
  by (simp add: sha256_def Let_def length_concat_word32 length_foldl_block sha256_H0_def)

subsection \<open>The length of the base64 text\<close>

lemma length_b64encode: "length (b64encode xs) = 4 * ((length xs + 2) div 3)"
proof (induction xs rule: b64encode.induct)
  case (1 a b c rest)
  have "(length rest + 5) div 3 = Suc ((length rest + 2) div 3)" by linarith
  with 1 show ?case by (simp add: add.commute)
qed simp_all

section \<open>Frames on the wire\<close>

lemma Frame_Inr:
  assumes "Frame c n p = Inr fr"
  shows "0 \<le> c \<and> c < 256 \<and> 0 \<le> n \<and> n < 4294967296"
    and "fr = \<lparr>cmd = c, nonce = n, payload = p,
               hash = sha256 ([word_of_int c] @ [word_of_int (n div 16777216),
                 word_of_int (n div 65536), word_of_int (n div 256), word_of_int n] @ p)\<rparr>"
  using assms
  by (auto simp: Frame_def calculate_hash_def split: sum.splits dest!: pack_B_Inr pack_I_Inr)

lemma Frame_range:
  assumes "0 \<le> c" "c < 256" "0 \<le> n" "n < 4294967296"
  shows "Frame c n p = Inr \<lparr>cmd = c, nonce = n, payload = p,
               hash = sha256 ([word_of_int c] @ [word_of_int (n div 16777216),
                 word_of_int (n div 65536), word_of_int (n div 256), word_of_int n] @ p)\<rparr>"
  using assms by (simp add: Frame_def calculate_hash_def pack_B_range pack_I_range)

lemma length_hash: "Frame c n p = Inr fr \<Longrightarrow> length (hash fr) = 32"
  by (auto dest!: Frame_Inr(2) simp: length_sha256)

lemma length_binary_frame: "Frame c n p = Inr fr \<Longrightarrow> length (binary_frame fr) = length p + 37"
  by (frule length_hash, drule Frame_Inr(2)) (simp add: binary_frame_def)

declare b64encode.simps [simp del] a2b_base64_loop.simps [simp del]

lemma pack_H_length_prefix: "l \<le> 65535 \<Longrightarrow> pack_H (int l) = Inr (length_prefix l)"
  unfolding length_prefix_def by (rule pack_H_range) simp_all

lemma unpack_length_prefix: "l \<le> 65535 \<Longrightarrow> unpack_be (length_prefix l) = int l"
  unfolding length_prefix_def by (rule unpack_be_2) simp_all

lemma encode_eq:
  assumes "Frame c n p = Inr fr"
  shows "encode fr =
     (if length (b64encode (binary_frame fr)) > 65535
      then Inl (ProtocolError (FrameTooLarge (length (b64encode (binary_frame fr)))))
      else Inr (length_prefix (length (b64encode (binary_frame fr))) @ b64encode (binary_frame fr)))"
proof -
  from Frame_Inr [OF assms]
  have rng: "0 \<le> cmd fr" "cmd fr < 256" "0 \<le> nonce fr" "nonce fr < 4294967296"
    by simp_all
  have pB: "pack_B (cmd fr) = Inr [word_of_int (cmd fr)]"
    using rng by (simp add: pack_B_range)
  have pI: "pack_I (nonce fr) = Inr [word_of_int (nonce fr div 16777216),
      word_of_int (nonce fr div 65536), word_of_int (nonce fr div 256), word_of_int (nonce fr)]"
    using rng by (simp add: pack_I_range)
  show ?thesis
    unfolding encode_def pB pI sum.case Let_def binary_frame_def [symmetric]
    by (simp add: pack_H_length_prefix)
qed

lemma decode_wire:
  assumes "length (b64encode bin) \<le> 65535" and "37 \<le> length bin"
  shows "decode (length_prefix (length (b64encode bin)) @ b64encode bin @ trailing) =
     (case Frame (unpack_be (take 1 bin)) (unpack_be (take 4 (drop 1 bin)))
             (drop 5 (take (length bin - 32) bin)) of
        Inl e \<Rightarrow> Inl e
      | Inr fr \<Rightarrow>
          if hash fr \<noteq> drop (length bin - 32) bin
          then Inl (ProtocolError HashValidationFailed) else Inr fr)"
proof -
  let ?b64 = "b64encode bin"
  let ?data = "length_prefix (length ?b64) @ ?b64 @ trailing"
  have l2: "length (length_prefix (length ?b64)) = 2"
    by (simp add: length_prefix_def)
  have t2: "take 2 ?data = length_prefix (length ?b64)"
    using l2 by simp
  have len: "nat (unpack_be (take 2 ?data)) = length ?b64"
    unfolding t2 using assms(1) by (simp add: unpack_length_prefix)
  have body: "take (length ?b64) (drop 2 ?data) = ?b64"
    using l2 by simp
  have ld: "\<not> length ?data < 2" "\<not> length ?data < 2 + length ?b64"
    using l2 by simp_all
  show ?thesis
    unfolding decode_def Let_def len body b64decode_b64encode
    using ld assms(2) by simp
qed


lemma binary_frame_parts:
  assumes "Frame c n p = Inr fr"
  shows "unpack_be (take 1 (binary_frame fr)) = c"
    and "unpack_be (take 4 (drop 1 (binary_frame fr))) = n"
    and "drop 5 (take (length (binary_frame fr) - 32) (binary_frame fr)) = p"
    and "drop (length (binary_frame fr) - 32) (binary_frame fr) = hash fr"
proof -
  note rng = Frame_Inr(1) [OF assms]
  have fields: "cmd fr = c" "nonce fr = n" "payload fr = p"
    using Frame_Inr(2) [OF assms] by simp_all
  have lh: "length (hash fr) = 32" by (rule length_hash [OF assms])
  define hdr :: bytes where "hdr = [word_of_int c, word_of_int (n div 16777216),
    word_of_int (n div 65536), word_of_int (n div 256), word_of_int n]"
  have bin: "binary_frame fr = hdr @ p @ hash fr"
    by (simp add: binary_frame_def fields hdr_def)
  have lhdr: "length hdr = 5" by (simp add: hdr_def)
  show "unpack_be (take 1 (binary_frame fr)) = c"
    using rng by (simp add: binary_frame_def fields unpack_be_1)
  show "unpack_be (take 4 (drop 1 (binary_frame fr))) = n"
    using rng by (simp add: binary_frame_def fields unpack_be_4)
  show "drop 5 (take (length (binary_frame fr) - 32) (binary_frame fr)) = p"
    using lh lhdr by (simp add: bin)
  show "drop (length (binary_frame fr) - 32) (binary_frame fr) = hash fr"
    using lh lhdr by (simp add: bin)
qed

lemma decode_encode:
  assumes fr: "Frame c n p = Inr fr" and enc: "encode fr = Inr data"
  shows "decode (data @ trailing) = Inr fr"
proof -
  let ?bin = "binary_frame fr"
  from enc have small: "length (b64encode ?bin) \<le> 65535"
    and data: "data = length_prefix (length (b64encode ?bin)) @ b64encode ?bin"
    by (simp_all add: encode_eq [OF fr] split: if_splits)
  have long: "37 \<le> length ?bin"
    by (simp add: length_binary_frame [OF fr])
  show ?thesis
    unfolding data append_assoc decode_wire [OF small long] binary_frame_parts [OF fr]
    by (simp add: fr)
qed

lemma b64_limit: "4 * ((l + 39) div 3) \<le> (65535 :: nat) \<longleftrightarrow> l \<le> 49112"
proof -
  have "4 * ((l + 39) div 3) \<le> 65535 \<longleftrightarrow> (l + 39) div 3 < 16384" by linarith
  also have "\<dots> \<longleftrightarrow> l + 39 < 16384 * 3" by (rule div_less_iff_less_mult) simp
  also have "\<dots> \<longleftrightarrow> l \<le> 49112" by linarith
  finally show ?thesis .
qed

lemma length_b64_binary_frame:
  "Frame c n p = Inr fr \<Longrightarrow> length (b64encode (binary_frame fr)) = 4 * ((length p + 39) div 3)"
  by (simp add: length_b64encode length_binary_frame)

lemma decode_Inr:
  assumes "decode data = Inr fr"
  shows "Frame (cmd fr) (nonce fr) (payload fr) = Inr fr"
proof -
  from assms obtain c n p where "Frame c n p = Inr fr"
    by (auto simp: decode_def Let_def split: if_splits option.splits sum.splits)
  with Frame_Inr(2) [OF this] show ?thesis by simp
qed

lemma decode_nonce_range:
  "decode data = Inr fr \<Longrightarrow> 0 \<le> nonce fr \<and> nonce fr < 4294967296"
  using Frame_Inr(1) [OF decode_Inr] by blast

lemma decode_Inr_carried:
  assumes "decode data = Inr fr"
  shows "\<exists>bin. b64decode (take (nat (unpack_be (take 2 data))) (drop 2 data)) = Some bin
           \<and> 37 \<le> length bin \<and> drop (length bin - 32) bin = hash fr"
  using assms
  by (auto simp: decode_def Let_def split: if_splits option.splits sum.splits)

section \<open>The frame codec\<close>

text \<open>
  Claim C2. For every command byte, every nonce in \<open>[0, 2^32)\<close> and every payload whose
  encoded frame stays within the length limit (a payload of at most 49112 bytes, see
  \<open>b64_limit\<close>), the frame is constructed, \<open>encode\<close> returns bytes, and \<open>decode\<close> of
  these bytes returns the same frame: same command, nonce and payload, and the digest
  recomputed by \<open>decode\<close> is the encoded one.
\<close>

theorem encode_decode_round_trip:
  assumes "0 \<le> c" and "c < 256" and "0 \<le> n" and "n < 2 ^ 32" and "length p \<le> 49112"
  shows "\<exists>fr data. Frame c n p = Inr fr \<and> encode fr = Inr data \<and> decode data = Inr fr
           \<and> cmd fr = c \<and> nonce fr = n \<and> payload fr = p"
proof -
  from assms(1-4) obtain fr where fr: "Frame c n p = Inr fr"
    using Frame_range [of c n p] by simp
  have "length (b64encode (binary_frame fr)) \<le> 65535"
    using assms(5) by (simp add: length_b64_binary_frame [OF fr] b64_limit)
  then obtain data where enc: "encode fr = Inr data"
    by (simp add: encode_eq [OF fr])
  have "decode data = Inr fr"
    using decode_encode [OF fr enc, of "[]"] by simp
  moreover have "cmd fr = c \<and> nonce fr = n \<and> payload fr = p"
    using Frame_Inr(2) [OF fr] by simp
  ultimately show ?thesis using fr enc by blast
qed

theorem encode_decode_round_trip_witness:
  "\<exists>fr data. Frame 1 42 (map of_char ''test payload'') = Inr fr \<and> encode fr = Inr data
     \<and> decode data = Inr fr \<and> cmd fr = 1 \<and> nonce fr = 42
     \<and> payload fr = map of_char ''test payload''"
  using encode_decode_round_trip [of 1 42 "map of_char ''test payload''"] by simp

text \<open>
  Claim C7. On a constructed frame, \<open>encode\<close> fails with the frame-too-large error if and
  only if the base64 text of command, nonce, payload and digest is longer than 65535 bytes
  (that is, the payload is longer than 49112 bytes); the result is then the error alone, no
  byte is produced. Otherwise \<open>encode\<close> returns the 2-byte big-endian length of the base64
  text followed by the base64 text.
\<close>

theorem encode_frame_too_large:
  assumes "Frame c n p = Inr fr"
  shows "((\<exists>l. encode fr = Inl (ProtocolError (FrameTooLarge l)))
            \<longleftrightarrow> 65535 < length (b64encode (binary_frame fr)))
       \<and> (65535 < length (b64encode (binary_frame fr)) \<longleftrightarrow> 49112 < length p)
       \<and> encode fr =
           (if 65535 < length (b64encode (binary_frame fr))
            then Inl (ProtocolError (FrameTooLarge (length (b64encode (binary_frame fr)))))
            else Inr (length_prefix (length (b64encode (binary_frame fr)))
                      @ b64encode (binary_frame fr)))
       \<and> length (length_prefix (length (b64encode (binary_frame fr)))) = 2
       \<and> (length (b64encode (binary_frame fr)) \<le> 65535 \<longrightarrow>
            unpack_be (length_prefix (length (b64encode (binary_frame fr))))
              = int (length (b64encode (binary_frame fr))))"
proof -
  have "65535 < length (b64encode (binary_frame fr)) \<longleftrightarrow> 49112 < length p"
    using b64_limit [of "length p"] by (simp add: length_b64_binary_frame [OF assms] not_le [symmetric])
  moreover have "length (length_prefix l) = 2" for l
    by (simp add: length_prefix_def)
  ultimately show ?thesis
    by (simp add: encode_eq [OF assms] unpack_length_prefix)
qed

theorem encode_frame_too_large_witness:
  "Frame 1 42 [] = Inr \<lparr>cmd = 1, nonce = 42, payload = [], hash = sha256 [1, 0, 0, 0, 42]\<rparr>
   \<and> encode \<lparr>cmd = 1, nonce = 42, payload = [], hash = sha256 [1, 0, 0, 0, 42]\<rparr>
       = Inr (length_prefix 52 @ b64encode ([1, 0, 0, 0, 42] @ sha256 [1, 0, 0, 0, 42]))"
proof -
  have fr: "Frame 1 42 [] = Inr \<lparr>cmd = 1, nonce = 42, payload = [], hash = sha256 [1, 0, 0, 0, 42]\<rparr>"
    by (simp add: Frame_range)
  have l: "length (b64encode (binary_frame
      \<lparr>cmd = 1, nonce = 42, payload = [], hash = sha256 [1, 0, 0, 0, 42]\<rparr>)) = 52"
    by (simp add: length_b64_binary_frame [OF fr])
  show ?thesis
    using encode_frame_too_large [OF fr] fr unfolding l
    by (simp add: binary_frame_def)
qed

lemma flip_bit_byte_neq: "k < 8 \<Longrightarrow> flip_bit k (x :: byte) \<noteq> x"
  by (auto simp: bit_eq_iff bit_simps intro!: exI [of _ k])

lemma digest_bit_flip_detected:
  assumes fr: "Frame c n p = Inr fr" and i: "i < 32" and k: "k < 8"
    and small: "length (b64encode (binary_frame fr)) \<le> 65535"
  defines "pos \<equiv> length (binary_frame fr) - 32 + i"
  defines "bin' \<equiv> (binary_frame fr)[pos := flip_bit k (binary_frame fr ! pos)]"
  shows "decode (length_prefix (length (b64encode bin')) @ b64encode bin')
           = Inl (ProtocolError HashValidationFailed)"
proof -
  define bin where "bin = binary_frame fr"
  have bin': "bin' = bin[pos := flip_bit k (bin ! pos)]" and pos: "pos = length bin - 32 + i"
    by (simp_all add: bin'_def pos_def bin_def)
  have lb: "length bin = length p + 37"
    unfolding bin_def by (rule length_binary_frame [OF fr])
  have lh: "length (hash fr) = 32" by (rule length_hash [OF fr])
  have lb': "length bin' = length bin" by (simp add: bin')
  have small': "length (b64encode bin') \<le> 65535"
    using small by (simp add: length_b64encode lb' bin_def)
  have long': "37 \<le> length bin'"
    using lb lb' by simp
  have i5: "5 \<le> pos" "length bin' - 32 \<le> pos"
    using lb lb' by (simp_all add: pos)
  have a1: "unpack_be (take 1 bin') = c"
    using i5 binary_frame_parts(1) [OF fr] by (simp add: bin' bin_def)
  have a2: "unpack_be (take 4 (drop 1 bin')) = n"
    using i5 binary_frame_parts(2) [OF fr] by (simp add: bin' bin_def drop_update_swap)
  have a3: "drop 5 (take (length bin' - 32) bin') = p"
    using i5 binary_frame_parts(3) [OF fr] by (simp add: bin' bin_def)
  have tl: "drop (length bin - 32) bin = hash fr"
    unfolding bin_def by (rule binary_frame_parts(4) [OF fr])
  have "drop (length bin' - 32) bin' = (hash fr)[i := flip_bit k (bin ! pos)]"
    using i5 by (simp add: bin' drop_update_swap tl pos)
  moreover have "((hash fr)[i := flip_bit k (bin ! pos)]) ! i = flip_bit k (bin ! pos)"
    using i lh by simp
  moreover have "hash fr ! i = bin ! pos"
    using lb i by (simp add: tl [symmetric] pos)
  moreover have "flip_bit k (bin ! pos) \<noteq> bin ! pos"
    by (rule flip_bit_byte_neq [OF k])
  ultimately have differs: "hash fr \<noteq> drop (length bin' - 32) bin'"
    by metis
  have "decode (length_prefix (length (b64encode bin')) @ b64encode bin' @ [])
      = Inl (ProtocolError HashValidationFailed)"
    unfolding decode_wire [OF small' long'] a1 a2 a3
    using differs by (simp add: fr)
  then show ?thesis by simp
qed

text \<open>
  Claim C6, amended. For every well-formed encoded frame (the length prefix followed by
  the base64 text of the binary frame command, nonce, payload, digest): when any single
  bit of the 32-byte digest of the binary frame is flipped, the encoded form of the result
  is rejected by \<open>decode\<close> with the hash validation error, no frame is returned. In general
  \<open>decode\<close>, on any bytes, returns a frame only when the 32 bytes carried after the payload
  are the digest of that frame, which the constructor computes from its command, nonce and
  payload: a digest mismatch is always a failure.
\<close>

theorem flipped_digest_bit_rejected:
  assumes "Frame c n p = Inr fr" and "encode fr = Inr data" and "i < 32" and "k < 8"
  shows "data = length_prefix (length (b64encode (binary_frame fr))) @ b64encode (binary_frame fr)
       \<and> (let pos = length (binary_frame fr) - 32 + i;
               bin' = (binary_frame fr)[pos := flip_bit k (binary_frame fr ! pos)]
           in decode (length_prefix (length (b64encode bin')) @ b64encode bin')
                = Inl (ProtocolError HashValidationFailed))
       \<and> (\<forall>data' fr'. decode data' = Inr fr' \<longrightarrow>
            (\<exists>bin. b64decode (take (nat (unpack_be (take 2 data'))) (drop 2 data')) = Some bin
               \<and> drop (length bin - 32) bin = hash fr'
               \<and> Frame (cmd fr') (nonce fr') (payload fr') = Inr fr'))"
proof -
  from assms(2) have small: "length (b64encode (binary_frame fr)) \<le> 65535"
    and data: "data = length_prefix (length (b64encode (binary_frame fr)))
                 @ b64encode (binary_frame fr)"
    by (simp_all add: encode_eq [OF assms(1)] split: if_splits)
  have "\<exists>bin. b64decode (take (nat (unpack_be (take 2 data'))) (drop 2 data')) = Some bin
               \<and> drop (length bin - 32) bin = hash fr'
               \<and> Frame (cmd fr') (nonce fr') (payload fr') = Inr fr'"
    if "decode data' = Inr fr'" for data' fr'
    using decode_Inr_carried [OF that] decode_Inr [OF that] by blast
  then show ?thesis
    using digest_bit_flip_detected [OF assms(1,3,4) small] data by (simp add: Let_def)
qed

theorem flipped_digest_bit_rejected_witness:
  "Frame 1 42 [] = Inr \<lparr>cmd = 1, nonce = 42, payload = [], hash = sha256 [1, 0, 0, 0, 42]\<rparr>
   \<and> encode \<lparr>cmd = 1, nonce = 42, payload = [], hash = sha256 [1, 0, 0, 0, 42]\<rparr>
       = Inr (length_prefix 52 @ b64encode ([1, 0, 0, 0, 42] @ sha256 [1, 0, 0, 0, 42]))
   \<and> decode (length_prefix 52
         @ b64encode (([1, 0, 0, 0, 42] @ sha256 [1, 0, 0, 0, 42])
             [5 := flip_bit 0 (([1, 0, 0, 0, 42] @ sha256 [1, 0, 0, 0, 42]) ! 5)]))
       = Inl (ProtocolError HashValidationFailed)"
proof -
  let ?fr = "\<lparr>cmd = 1, nonce = 42, payload = [], hash = sha256 [1, 0, 0, 0, 42]\<rparr>"
  have fr: "Frame 1 42 [] = Inr ?fr"
    by (simp add: Frame_range)
  have b: "binary_frame ?fr = [1, 0, 0, 0, 42] @ sha256 [1, 0, 0, 0, 42]"
    by (simp add: binary_frame_def)
  have l: "length (b64encode ([1, 0, 0, 0, 42] @ sha256 [1, 0, 0, 0, 42])) = 52"
    using length_b64_binary_frame [OF fr] by (simp add: b)
  have enc: "encode ?fr = Inr (length_prefix 52 @ b64encode ([1, 0, 0, 0, 42] @ sha256 [1, 0, 0, 0, 42]))"
    using encode_eq [OF fr] unfolding b l by simp
  have i: "(0 :: nat) < 32" and k: "(0 :: nat) < 8" by simp_all
  from flipped_digest_bit_rejected [OF fr enc i k, THEN conjunct2, THEN conjunct1] fr enc
  show ?thesis
    unfolding b by (simp add: Let_def length_b64encode length_sha256)
qed

text \<open>
  Claim C6 as stated fails for a bit of the encoded bytes themselves. \<open>Frame(1, 42)\<close>
  encodes to 54 bytes, the length prefix and the base64 text ending in \<open>Xw==\<close>; the
  character \<open>w\<close> at index 51 carries the last two bits of the digest and four unused bits.
  With its bit 6 flipped it is the character \<open>7\<close>, and \<open>decode\<close> returns the frame.
\<close>

lemma sha256_sample:
  "sha256 [1, 0, 0, 0, 42] =
     [155, 185, 162, 220, 103, 139, 172, 193, 236, 38, 81, 217, 175, 203, 9, 35, 32,
      244, 6, 142, 169, 200, 181, 85, 147, 87, 75, 59, 112, 249, 40, 95]"
  by code_simp

lemma b64decode_sample:
  "b64decode
     [65, 81, 65, 65, 65, 67, 113, 98, 117, 97, 76, 99, 90, 52, 117, 115, 119, 101,
      119, 109, 85, 100, 109, 118, 121, 119, 107, 106, 73, 80, 81, 71, 106, 113, 110,
      73, 116, 86, 87, 84, 86, 48, 115, 55, 99, 80, 107, 111, 88, 55, 61, 61] =
   Some ([1, 0, 0, 0, 42] @
     [155, 185, 162, 220, 103, 139, 172, 193, 236, 38, 81, 217, 175, 203, 9, 35, 32,
      244, 6, 142, 169, 200, 181, 85, 147, 87, 75, 59, 112, 249, 40, 95])"
  by code_simp

lemma b64encode_sample:
  "b64encode ([1, 0, 0, 0, 42] @
     [155, 185, 162, 220, 103, 139, 172, 193, 236, 38, 81, 217, 175, 203, 9, 35, 32,
      244, 6, 142, 169, 200, 181, 85, 147, 87, 75, 59, 112, 249, 40, 95]) =
     [65, 81, 65, 65, 65, 67, 113, 98, 117, 97, 76, 99, 90, 52, 117, 115, 119, 101,
      119, 109, 85, 100, 109, 118, 121, 119, 107, 106, 73, 80, 81, 71, 106, 113, 110,
      73, 116, 86, 87, 84, 86, 48, 115, 55, 99, 80, 107, 111, 88, 119, 61, 61]"
  by code_simp

theorem flipped_wire_bit_counterexample:
  "encode \<lparr>cmd = 1, nonce = 42, payload = [], hash = sha256 [1, 0, 0, 0, 42]\<rparr> =
     Inr [0, 52, 65, 81, 65, 65, 65, 67, 113, 98, 117, 97, 76, 99, 90, 52, 117, 115, 119,
      101, 119, 109, 85, 100, 109, 118, 121, 119, 107, 106, 73, 80, 81, 71, 106, 113,
      110, 73, 116, 86, 87, 84, 86, 48, 115, 55, 99, 80, 107, 111, 88, 119, 61, 61]
   \<and> [0, 52, 65, 81, 65, 65, 65, 67, 113, 98, 117, 97, 76, 99, 90, 52, 117, 115, 119,
      101, 119, 109, 85, 100, 109, 118, 121, 119, 107, 106, 73, 80, 81, 71, 106, 113,
      110, 73, 116, 86, 87, 84, 86, 48, 115, 55, 99, 80, 107, 111, 88, 119, 61, 61]
       [51 := flip_bit 6 (119 :: byte)] =
     [0, 52, 65, 81, 65, 65, 65, 67, 113, 98, 117, 97, 76, 99, 90, 52, 117, 115, 119,
      101, 119, 109, 85, 100, 109, 118, 121, 119, 107, 106, 73, 80, 81, 71, 106, 113,
      110, 73, 116, 86, 87, 84, 86, 48, 115, 55, 99, 80, 107, 111, 88, 55, 61, 61]
   \<and> decode
     [0, 52, 65, 81, 65, 65, 65, 67, 113, 98, 117, 97, 76, 99, 90, 52, 117, 115, 119,
      101, 119, 109, 85, 100, 109, 118, 121, 119, 107, 106, 73, 80, 81, 71, 106, 113,
      110, 73, 116, 86, 87, 84, 86, 48, 115, 55, 99, 80, 107, 111, 88, 55, 61, 61] =
     Inr \<lparr>cmd = 1, nonce = 42, payload = [], hash = sha256 [1, 0, 0, 0, 42]\<rparr>"
proof -
  let ?fr = "\<lparr>cmd = 1, nonce = 42, payload = [], hash = sha256 [1, 0, 0, 0, 42]\<rparr>"
  have fr: "Frame 1 42 [] = Inr ?fr"
    by (simp add: Frame_range)
  have b: "binary_frame ?fr = [1, 0, 0, 0, 42] @ sha256 [1, 0, 0, 0, 42]"
    by (simp add: binary_frame_def)
  have e: "b64encode (binary_frame ?fr) =
      [65, 81, 65, 65, 65, 67, 113, 98, 117, 97, 76, 99, 90, 52, 117, 115, 119, 101,
      119, 109, 85, 100, 109, 118, 121, 119, 107, 106, 73, 80, 81, 71, 106, 113, 110,
      73, 116, 86, 87, 84, 86, 48, 115, 55, 99, 80, 107, 111, 88, 119, 61, 61]"
    unfolding b unfolding sha256_sample by (rule b64encode_sample)
  have l52: "length
      [65, 81, 65, 65, 65, 67, 113, 98, 117, 97, 76, 99, 90, 52, 117, 115, 119, 101,
      119, 109, 85, 100, 109, 118, 121, 119, 107, 106, 73, 80, 81, 71, 106, 113, 110,
      73, 116, 86, 87, 84, 86, 48, 115, 55, 99, 80, 107, 111, 88, 119, 61, 61 :: byte] = 52"
    by simp
  have "encode ?fr = Inr (length_prefix 52 @
      [65, 81, 65, 65, 65, 67, 113, 98, 117, 97, 76, 99, 90, 52, 117, 115, 119, 101,
      119, 109, 85, 100, 109, 118, 121, 119, 107, 106, 73, 80, 81, 71, 106, 113, 110,
      73, 116, 86, 87, 84, 86, 48, 115, 55, 99, 80, 107, 111, 88, 119, 61, 61])"
    using encode_eq [OF fr] unfolding e l52 by simp
  then have enc: "encode ?fr =
      Inr [0, 52, 65, 81, 65, 65, 65, 67, 113, 98, 117, 97, 76, 99, 90, 52, 117, 115, 119,
      101, 119, 109, 85, 100, 109, 118, 121, 119, 107, 106, 73, 80, 81, 71, 106, 113,
      110, 73, 116, 86, 87, 84, 86, 48, 115, 55, 99, 80, 107, 111, 88, 119, 61, 61]"
    by (simp add: length_prefix_def)
  have flip: "[0, 52, 65, 81, 65, 65, 65, 67, 113, 98, 117, 97, 76, 99, 90, 52, 117, 115, 119,
      101, 119, 109, 85, 100, 109, 118, 121, 119, 107, 106, 73, 80, 81, 71, 106, 113,
      110, 73, 116, 86, 87, 84, 86, 48, 115, 55, 99, 80, 107, 111, 88, 119, 61, 61]
       [51 := flip_bit 6 (119 :: byte)] =
     [0, 52, 65, 81, 65, 65, 65, 67, 113, 98, 117, 97, 76, 99, 90, 52, 117, 115, 119,
      101, 119, 109, 85, 100, 109, 118, 121, 119, 107, 106, 73, 80, 81, 71, 106, 113,
      110, 73, 116, 86, 87, 84, 86, 48, 115, 55, 99, 80, 107, 111, 88, 55, 61, 61]"
    by (simp add: flip_bit_eq_xor)
  have "decode ([0, 52] @
      [65, 81, 65, 65, 65, 67, 113, 98, 117, 97, 76, 99, 90, 52, 117, 115, 119, 101,
      119, 109, 85, 100, 109, 118, 121, 119, 107, 106, 73, 80, 81, 71, 106, 113, 110,
      73, 116, 86, 87, 84, 86, 48, 115, 55, 99, 80, 107, 111, 88, 55, 61, 61] @ []) =
     Inr ?fr"
  proof -
    have dec: "decode
        [0, 52, 65, 81, 65, 65, 65, 67, 113, 98, 117, 97, 76, 99, 90, 52, 117, 115, 119,
      101, 119, 109, 85, 100, 109, 118, 121, 119, 107, 106, 73, 80, 81, 71, 106, 113,
      110, 73, 116, 86, 87, 84, 86, 48, 115, 55, 99, 80, 107, 111, 88, 55, 61, 61] =
        (case Frame 1 42 [] of Inl e \<Rightarrow> Inl e
         | Inr f \<Rightarrow> if hash f \<noteq> [155, 185, 162, 220, 103, 139, 172, 193, 236, 38, 81, 217, 175, 203, 9, 35, 32,
      244, 6, 142, 169, 200, 181, 85, 147, 87, 75, 59, 112, 249, 40, 95]
             then Inl (ProtocolError HashValidationFailed) else Inr f)"
      by (simp add: decode_def unpack_be_def b64decode_sample Let_def)
    show ?thesis
      using dec by (simp add: fr sha256_sample)
  qed
  then have dec: "decode
      [0, 52, 65, 81, 65, 65, 65, 67, 113, 98, 117, 97, 76, 99, 90, 52, 117, 115, 119,
      101, 119, 109, 85, 100, 109, 118, 121, 119, 107, 106, 73, 80, 81, 71, 106, 113,
      110, 73, 116, 86, 87, 84, 86, 48, 115, 55, 99, 80, 107, 111, 88, 55, 61, 61] =
     Inr ?fr"
    by simp
  show ?thesis
    using enc flip dec by simp
qed

section \<open>The secret as bytes\<close>

lemma utf8_encode_char_Inl: "utf8_encode_char c = Inl e \<Longrightarrow> e = UnicodeEncodeError"
  by (auto simp: utf8_encode_char_def split: if_splits)

lemma str_encode_Inl: "str_encode s = Inl e \<Longrightarrow> e = UnicodeEncodeError"
  by (induction s) (auto split: sum.splits dest: utf8_encode_char_Inl)

lemma str_encode_ascii: "\<forall>c\<in>set s. c < 128 \<Longrightarrow> str_encode s = Inr (map of_nat s)"
  by (induction s) (simp_all add: utf8_encode_char_def)

lemma str_encode_sample:
  "str_encode [0xE9, 0x20AC, 0x1F600] = Inr [0xC3, 0xA9, 0xE2, 0x82, 0xAC, 0xF0, 0x9F, 0x98, 0x80]"
  "str_encode [0x41, 0xD800] = Inl UnicodeEncodeError"
  by (simp_all add: utf8_encode_char_def)

lemma str_encode_secret:
  "str_encode (secret MiniTelServer_init) =
     Inr [70, 76, 65, 71, 123, 77, 73, 78, 73, 84, 69, 76, 95,
          77, 65, 83, 84, 69, 82, 95, 50, 48, 50, 53, 125]"
  by (simp add: MiniTelServer_init_def utf8_encode_char_def)

section \<open>The server\<close>

subsection \<open>One command\<close>

lemma encode_wire:
  assumes "Frame c n p = Inr fr" and "length p \<le> 49112"
  shows "encode fr = Inr (wire fr)"
  using assms(2) by (simp add: encode_eq [OF assms(1)] wire_def length_b64_binary_frame [OF assms(1)] b64_limit)

lemma encode_Inr_wire:
  assumes "Frame c n p = Inr fr" and "encode fr = Inr out"
  shows "out = wire fr"
  using assms(2) by (simp add: encode_eq [OF assms(1)] wire_def split: if_splits)

text \<open>The response frame is constructed whenever the connection invariant holds and the
  request carries the expected nonce.\<close>

lemma response_frame:
  assumes "connection_invariant state" and "nonce fr = expected_client_nonce state"
    and "nonce fr < 4294967296"
    and "0 \<le> c" and "c < 256"
  shows "\<exists>r. Frame c (server_nonce state) p = Inr r \<and> cmd r = c
           \<and> nonce r = server_nonce state \<and> payload r = p"
proof -
  from assms(1-3) have "0 \<le> server_nonce state" and "server_nonce state < 4294967296"
    unfolding connection_invariant_def by presburger+
  with assms(4,5) show ?thesis
    by (simp add: Frame_range)
qed

lemma process_command_invariant:
  assumes "connection_invariant state"
  shows "connection_invariant (snd (process_command self fr state))"
  using assms
  by (auto simp: process_command_def connection_invariant_def Let_def split: sum.splits)

lemma process_command_nonces:
  "(case process_command self fr state of
      (Inl e, state') \<Rightarrow> expected_client_nonce state' = expected_client_nonce state
                 \<and> server_nonce state' = server_nonce state
    | (Inr r, state') \<Rightarrow> nonce fr = expected_client_nonce state \<and> nonce r = server_nonce state
                 \<and> expected_client_nonce state' = expected_client_nonce state + 2
                 \<and> server_nonce state' = server_nonce state + 2)"
  by (auto simp: process_command_def Let_def split: sum.splits if_splits dest!: Frame_Inr(2))

lemma process_command_bad_nonce:
  "nonce fr \<noteq> expected_client_nonce state \<Longrightarrow>
     process_command self fr state = (Inl (ProtocolError InvalidNonceSequence), state)"
  by (simp add: process_command_def)

lemma Frame_Inl: "Frame c n p = Inl e \<Longrightarrow> e = StructError"
  by (auto simp: Frame_def calculate_hash_def pack_B_def pack_I_def pack_be_def
      split: sum.splits if_splits)

lemma process_command_protocol_error:
  assumes "process_command self fr state = (Inl (ProtocolError e), state')"
  shows "state' = state"
    and "e = InvalidNonceSequence \<or> e = DumpRequiresHelloFirst \<or> e = UnknownCommand (cmd fr)"
  using assms
  by (auto simp: process_command_def Let_def split: sum.splits if_splits
      dest: Frame_Inl Frame_Inl [OF sym] str_encode_Inl str_encode_Inl [OF sym])

lemma command_codes:
  "HELLO \<noteq> DUMP" "HELLO \<noteq> STOP_CMD" "DUMP \<noteq> STOP_CMD" "DUMP \<noteq> HELLO" "STOP_CMD \<noteq> HELLO"
  "STOP_CMD \<noteq> DUMP"
  "0 \<le> HELLO_ACK" "HELLO_ACK < 256" "0 \<le> DUMP_FAILED" "DUMP_FAILED < 256"
  "0 \<le> DUMP_OK" "DUMP_OK < 256" "0 \<le> STOP_OK" "STOP_OK < 256"
  by (simp_all add: HELLO_def DUMP_def STOP_CMD_def HELLO_ACK_def DUMP_FAILED_def DUMP_OK_def
      STOP_OK_def)

lemma process_hello:
  assumes "connection_invariant state" and "nonce fr = expected_client_nonce state"
    and "nonce fr < 4294967296" and "cmd fr = HELLO"
  shows "\<exists>r. Frame HELLO_ACK (server_nonce state) [] = Inr r
           \<and> process_command self fr state
               = (Inr r, advance (state\<lparr>last_command := Some HELLO, dump_count := 0\<rparr>))"
proof -
  from response_frame [OF assms(1-3) command_codes(7,8), of "[]"]
  obtain r where "Frame HELLO_ACK (server_nonce state) [] = Inr r" by blast
  then show ?thesis
    using assms(2,4) by (simp add: process_command_def Let_def advance_def)
qed

lemma process_dump_first:
  assumes "connection_invariant state" and "nonce fr = expected_client_nonce state"
    and "nonce fr < 4294967296" and "cmd fr = DUMP" and "last_command state = Some HELLO"
    and "dump_count state = 0"
  shows "\<exists>r. Frame DUMP_FAILED (server_nonce state) [] = Inr r
           \<and> process_command self fr state
               = (Inr r, advance (state\<lparr>dump_count := dump_count state + 1\<rparr>))"
proof -
  from response_frame [OF assms(1-3) command_codes(9,10), of "[]"]
  obtain r where "Frame DUMP_FAILED (server_nonce state) [] = Inr r" by blast
  then show ?thesis
    using assms(2,4,5,6)
    by (simp add: process_command_def Let_def advance_def command_codes)
qed

lemma process_dump_later:
  assumes "connection_invariant state" and "nonce fr = expected_client_nonce state"
    and "nonce fr < 4294967296" and "cmd fr = DUMP" and "last_command state = Some HELLO"
    and "dump_count state \<noteq> 0" and "str_encode (secret self) = Inr bs"
  shows "\<exists>r. Frame DUMP_OK (server_nonce state) bs = Inr r
           \<and> process_command self fr state
               = (Inr r, advance (state\<lparr>dump_count := dump_count state + 1\<rparr>))"
proof -
  from response_frame [OF assms(1-3) command_codes(11,12), of bs]
  obtain r where "Frame DUMP_OK (server_nonce state) bs = Inr r" by blast
  then show ?thesis
    using assms(2,4,5,6,7)
    by (simp add: process_command_def Let_def advance_def command_codes)
qed

lemma process_dump_unauthenticated:
  assumes "nonce fr = expected_client_nonce state" and "cmd fr = DUMP"
    and "last_command state \<noteq> Some HELLO"
  shows "process_command self fr state = (Inl (ProtocolError DumpRequiresHelloFirst), state)"
  using assms by (simp add: process_command_def command_codes)

lemma process_stop:
  assumes "connection_invariant state" and "nonce fr = expected_client_nonce state"
    and "nonce fr < 4294967296" and "cmd fr = STOP_CMD"
  shows "\<exists>r. Frame STOP_OK (server_nonce state) [] = Inr r
           \<and> process_command self fr state = (Inr r, advance state)"
proof -
  from response_frame [OF assms(1-3) command_codes(13,14), of "[]"]
  obtain r where "Frame STOP_OK (server_nonce state) [] = Inr r" by blast
  then show ?thesis
    using assms(2,4) by (simp add: process_command_def Let_def advance_def command_codes)
qed

lemma process_unknown:
  assumes "nonce fr = expected_client_nonce state" and "cmd fr \<noteq> HELLO" and "cmd fr \<noteq> DUMP"
    and "cmd fr \<noteq> STOP_CMD"
  shows "process_command self fr state = (Inl (ProtocolError (UnknownCommand (cmd fr))), state)"
  using assms by (simp add: process_command_def)

lemma handle_frame_decoded:
  assumes "decode data = Inr fr"
  shows "handle_frame self data state =
     (case process_command self fr state of
        (Inl e, state') \<Rightarrow> (Inl e, state')
      | (Inr response, state') \<Rightarrow>
          (case encode response of
             Inl e \<Rightarrow> (Inl e, state')
           | Inr out \<Rightarrow> (Inr out, state')))"
  by (simp add: handle_frame_def assms)

lemma handle_frame_Inr:
  assumes "handle_frame self data state = (Inr out, state')"
  shows "\<exists>fr r. decode data = Inr fr \<and> process_command self fr state = (Inr r, state')
           \<and> encode r = Inr out"
  using assms by (auto simp: handle_frame_def split: sum.splits prod.splits)

lemma handle_frame_invariant:
  assumes "connection_invariant state"
  shows "connection_invariant (snd (handle_frame self data state))"
proof (cases "decode data")
  case (Inl e)
  then show ?thesis by (simp add: handle_frame_def assms)
next
  case (Inr fr)
  have "snd (handle_frame self data state) = snd (process_command self fr state)"
    by (simp add: handle_frame_decoded [OF Inr] split: prod.splits sum.splits)
  then show ?thesis by (simp add: process_command_invariant [OF assms])
qed

lemma handle_client_invariant:
  "connection_invariant state \<Longrightarrow>
     connection_invariant (snd (snd (handle_client self datas state)))"
proof (induction datas arbitrary: state)
  case Nil
  then show ?case by simp
next
  case (Cons data rest)
  from handle_frame_invariant [OF Cons.prems, of self data]
  have inv: "connection_invariant (snd (handle_frame self data state))" .
  show ?case
  proof (cases "handle_frame self data state")
    case (Pair res state')
    with inv have inv': "connection_invariant state'" by simp
    show ?thesis
    proof (cases res)
      case (Inl e)
      with Pair inv' show ?thesis by simp
    next
      case (Inr out)
      with Pair Cons.IH [OF inv'] show ?thesis
        by (auto split: prod.splits)
    qed
  qed
qed

lemma invariant_init: "connection_invariant ConnectionState_init"
  by (simp add: connection_invariant_def ConnectionState_init_def)

subsection \<open>The handler loop\<close>

lemma handle_client_running_Cons:
  assumes "handle_client self (data # rest) state = (outs, True, st)"
  shows "\<exists>out outs' state'. handle_frame self data state = (Inr out, state')
           \<and> handle_client self rest state' = (outs', True, st) \<and> outs = out # outs'"
  using assms by (auto split: prod.splits sum.splits)

lemma handle_client_running_append:
  "handle_client self (xs @ ys) state = (outs, True, st) \<Longrightarrow>
     \<exists>outs1 outs2 state1. handle_client self xs state = (outs1, True, state1)
        \<and> handle_client self ys state1 = (outs2, True, st) \<and> outs = outs1 @ outs2
        \<and> length outs1 = length xs"
proof (induction xs arbitrary: state outs)
  case Nil
  then show ?case by simp
next
  case (Cons x xs)
  from handle_client_running_Cons [of self x "xs @ ys" state outs st] Cons.prems
  obtain out outs' state' where hf: "handle_frame self x state = (Inr out, state')"
    and rest: "handle_client self (xs @ ys) state' = (outs', True, st)"
    and outs: "outs = out # outs'"
    by auto
  from Cons.IH [OF rest] obtain outs1 outs2 state1
    where "handle_client self xs state' = (outs1, True, state1)"
      and "handle_client self ys state1 = (outs2, True, st)" and "outs' = outs1 @ outs2"
      and "length outs1 = length xs"
    by blast
  then show ?case
    using hf outs by simp
qed

text \<open>A frame returned by \<open>process_command\<close> was built by the constructor, so the bytes
  sent for it decode to it.\<close>

lemma Frame_fields: "Frame c n p = Inr r \<Longrightarrow> Frame (cmd r) (nonce r) (payload r) = Inr r"
  using Frame_Inr(2) [of c n p r] by simp

lemma process_command_response_wf:
  assumes "process_command self fr state = (Inr r, state')"
  shows "Frame (cmd r) (nonce r) (payload r) = Inr r"
proof -
  from assms have "\<exists>c p. Frame c (server_nonce state) p = Inr r"
    by (simp add: process_command_def Let_def split: sum.splits if_splits) blast+
  then show ?thesis by (blast intro: Frame_fields)
qed

lemma handle_frame_sent:
  assumes "handle_frame self data state = (Inr out, state')"
  shows "\<exists>fr r. decode data = Inr fr \<and> process_command self fr state = (Inr r, state')
           \<and> decode out = Inr r"
proof -
  from handle_frame_Inr [OF assms] obtain fr r where d: "decode data = Inr fr"
    and p: "process_command self fr state = (Inr r, state')" and e: "encode r = Inr out"
    by blast
  from decode_encode [OF process_command_response_wf [OF p] e, of "[]"]
  have "decode out = Inr r" by simp
  with d p show ?thesis by blast
qed

lemma decode_wire_frame:
  assumes "Frame c n p = Inr fr" and "length p \<le> 49112"
  shows "decode (wire fr) = Inr fr"
  using decode_encode [OF assms(1) encode_wire [OF assms], of "[]"] by simp

lemma handle_frame_accepted:
  assumes "decode data = Inr fr" and "process_command self fr state = (Inr r, state')"
    and "Frame c n p = Inr r" and "length p \<le> 49112"
  shows "handle_frame self data state = (Inr (wire r), state')"
  by (simp add: handle_frame_decoded [OF assms(1)] assms(2) encode_wire [OF assms(3,4)])

subsection \<open>Commands before HELLO\<close>

text \<open>
  Claim C1, amended. On a connection that has not processed a HELLO, an incoming frame
  carrying the DUMP opcode with the expected nonce is rejected with the protocol error
  "DUMP requires HELLO first": nothing is sent, the state is unchanged and the handler
  leaves its loop. A frame carrying the STOP_CMD opcode with the expected nonce is not
  rejected: STOP_OK is sent with the current server nonce and both counters advance by 2.
\<close>

theorem dump_before_hello_rejected:
  assumes "connection_invariant state" and "last_command state = None"
    and "decode data = Inr fr" and "nonce fr = expected_client_nonce state"
  shows "(cmd fr = DUMP \<longrightarrow>
            handle_frame self data state = (Inl (ProtocolError DumpRequiresHelloFirst), state)
            \<and> handle_client self (data # rest) state = ([], False, state))
       \<and> (cmd fr = STOP_CMD \<longrightarrow>
            (\<exists>r. Frame STOP_OK (server_nonce state) [] = Inr r
               \<and> handle_frame self data state =
                   (Inr (wire r),
                    state\<lparr>expected_client_nonce := expected_client_nonce state + 2,
                          server_nonce := server_nonce state + 2\<rparr>)))"
proof (intro conjI impI)
  assume c: "cmd fr = DUMP"
  from assms(2) have "last_command state \<noteq> Some HELLO" by simp
  from process_dump_unauthenticated [OF assms(4) c this]
  show hf: "handle_frame self data state = (Inl (ProtocolError DumpRequiresHelloFirst), state)"
    by (simp add: handle_frame_decoded [OF assms(3)])
  then show "handle_client self (data # rest) state = ([], False, state)"
    by simp
next
  assume c: "cmd fr = STOP_CMD"
  from decode_nonce_range [OF assms(3)] have "nonce fr < 4294967296" by simp
  from process_stop [OF assms(1,4) this c, of self]
  obtain r where r: "Frame STOP_OK (server_nonce state) [] = Inr r"
    and p: "process_command self fr state = (Inr r, advance state)"
    by blast
  from handle_frame_accepted [OF assms(3) p r] r
  show "\<exists>r. Frame STOP_OK (server_nonce state) [] = Inr r
      \<and> handle_frame self data state =
          (Inr (wire r),
           state\<lparr>expected_client_nonce := expected_client_nonce state + 2,
                 server_nonce := server_nonce state + 2\<rparr>)"
    by (simp add: advance_def)
qed

lemma Frame_literal:
  "Frame DUMP 0 [] = Inr \<lparr>cmd = 2, nonce = 0, payload = [], hash = sha256 [2, 0, 0, 0, 0]\<rparr>"
  "Frame STOP_CMD 0 [] = Inr \<lparr>cmd = 4, nonce = 0, payload = [], hash = sha256 [4, 0, 0, 0, 0]\<rparr>"
  "Frame HELLO 0 [] = Inr \<lparr>cmd = 1, nonce = 0, payload = [], hash = sha256 [1, 0, 0, 0, 0]\<rparr>"
  "Frame STOP_OK 1 [] = Inr \<lparr>cmd = 132, nonce = 1, payload = [], hash = sha256 [132, 0, 0, 0, 1]\<rparr>"
  "Frame HELLO_ACK 1 [] = Inr \<lparr>cmd = 129, nonce = 1, payload = [], hash = sha256 [129, 0, 0, 0, 1]\<rparr>"
  by (simp_all add: Frame_range DUMP_def STOP_CMD_def HELLO_def STOP_OK_def HELLO_ACK_def)

theorem dump_before_hello_rejected_witness:
  "connection_invariant ConnectionState_init \<and> last_command ConnectionState_init = None
   \<and> decode (wire \<lparr>cmd = 2, nonce = 0, payload = [], hash = sha256 [2, 0, 0, 0, 0]\<rparr>)
       = Inr \<lparr>cmd = 2, nonce = 0, payload = [], hash = sha256 [2, 0, 0, 0, 0]\<rparr>
   \<and> handle_client MiniTelServer_init
         [wire \<lparr>cmd = 2, nonce = 0, payload = [], hash = sha256 [2, 0, 0, 0, 0]\<rparr>]
         ConnectionState_init = ([], False, ConnectionState_init)"
proof -
  let ?f = "\<lparr>cmd = 2, nonce = 0, payload = [], hash = sha256 [2, 0, 0, 0, 0]\<rparr>"
  have d: "decode (wire ?f) = Inr ?f"
    by (rule decode_wire_frame [OF Frame_literal(1)]) simp
  have l: "last_command ConnectionState_init = None" and n: "nonce ?f = expected_client_nonce ConnectionState_init"
    by (simp_all add: ConnectionState_init_def)
  from dump_before_hello_rejected [OF invariant_init l d n, of MiniTelServer_init "[]"]
  show ?thesis using d l invariant_init by (simp add: DUMP_def)
qed

text \<open>
  Claim C1 as stated fails for STOP_CMD: on a fresh connection, a STOP_CMD frame with
  nonce 0 is answered with STOP_OK (nonce 1) and the loop goes on.
\<close>

theorem stop_before_hello_counterexample:
  "decode (wire \<lparr>cmd = 4, nonce = 0, payload = [], hash = sha256 [4, 0, 0, 0, 0]\<rparr>)
       = Inr \<lparr>cmd = 4, nonce = 0, payload = [], hash = sha256 [4, 0, 0, 0, 0]\<rparr>
   \<and> last_command ConnectionState_init = None
   \<and> handle_client MiniTelServer_init
         [wire \<lparr>cmd = 4, nonce = 0, payload = [], hash = sha256 [4, 0, 0, 0, 0]\<rparr>]
         ConnectionState_init
       = ([wire \<lparr>cmd = 132, nonce = 1, payload = [], hash = sha256 [132, 0, 0, 0, 1]\<rparr>], True,
          \<lparr>expected_client_nonce = 2, server_nonce = 3, last_command = None, dump_count = 0\<rparr>)"
proof -
  let ?f = "\<lparr>cmd = 4, nonce = 0, payload = [], hash = sha256 [4, 0, 0, 0, 0]\<rparr>"
  let ?r = "\<lparr>cmd = 132, nonce = 1, payload = [], hash = sha256 [132, 0, 0, 0, 1]\<rparr>"
  have d: "decode (wire ?f) = Inr ?f"
    by (rule decode_wire_frame [OF Frame_literal(2)]) simp
  have p: "process_command MiniTelServer_init ?f ConnectionState_init
      = (Inr ?r, \<lparr>expected_client_nonce = 2, server_nonce = 3, last_command = None, dump_count = 0\<rparr>)"
    by (simp add: process_command_def ConnectionState_init_def Frame_literal
        HELLO_def DUMP_def STOP_CMD_def)
  have "handle_frame MiniTelServer_init (wire ?f) ConnectionState_init
      = (Inr (wire ?r), \<lparr>expected_client_nonce = 2, server_nonce = 3, last_command = None, dump_count = 0\<rparr>)"
    by (rule handle_frame_accepted [OF d p Frame_literal(4)]) simp
  then show ?thesis
    using d by (simp add: ConnectionState_init_def)
qed

section \<open>The scripted DUMP policy\<close>

lemma handle_client_append:
  assumes "handle_client self xs state = (outs1, True, state1)"
  shows "handle_client self (xs @ ys) state =
     (case handle_client self ys state1 of (outs2, running, st) \<Rightarrow> (outs1 @ outs2, running, st))"
  using assms
proof (induction xs arbitrary: state outs1)
  case Nil
  then show ?case by (simp split: prod.splits)
next
  case (Cons x xs)
  from handle_client_running_Cons [OF Cons.prems]
  obtain out outs' state' where hf: "handle_frame self x state = (Inr out, state')"
    and rest: "handle_client self xs state' = (outs', True, state1)"
    and outs: "outs1 = out # outs'"
    by blast
  show ?case
    by (simp add: hf Cons.IH [OF rest] outs split: prod.splits)
qed

lemma handle_frame_rejected:
  assumes "decode data = Inr fr" and "process_command self fr state = (Inl e, state')"
  shows "handle_frame self data state = (Inl e, state')"
  by (simp add: handle_frame_decoded [OF assms(1)] assms(2))

text \<open>What an accepted frame other than HELLO does to the authentication state.\<close>

lemma accepted_step:
  assumes "handle_frame self data state = (Inr out, state')"
    and "\<not> carries HELLO data" and "last_command state = Some HELLO"
  shows "last_command state' = Some HELLO
       \<and> dump_count state' = dump_count state + (if carries DUMP data then 1 else 0)"
proof -
  from handle_frame_Inr [OF assms(1)] obtain fr r where d: "decode data = Inr fr"
    and p: "process_command self fr state = (Inr r, state')"
    by blast
  from assms(2) d have nh: "cmd fr \<noteq> HELLO" by (simp add: carries_def)
  from d have cd: "carries DUMP data \<longleftrightarrow> cmd fr = DUMP" by (simp add: carries_def)
  from p nh assms(3) show ?thesis
    unfolding cd
    by (auto simp: process_command_def Let_def command_codes split: if_splits sum.splits)
qed

lemma accepted_hello:
  assumes "handle_frame self data state = (Inr out, state')" and "carries HELLO data"
  shows "last_command state' = Some HELLO \<and> dump_count state' = 0"
proof -
  from handle_frame_Inr [OF assms(1)] obtain fr r where d: "decode data = Inr fr"
    and p: "process_command self fr state = (Inr r, state')"
    by blast
  from assms(2) d have "cmd fr = HELLO" by (simp add: carries_def)
  with p show ?thesis
    by (auto simp: process_command_def Let_def split: if_splits sum.splits)
qed

lemma accepted_run:
  "handle_client self datas state = (outs, True, state') \<Longrightarrow>
   \<forall>d\<in>set datas. \<not> carries HELLO d \<Longrightarrow> last_command state = Some HELLO \<Longrightarrow>
     last_command state' = Some HELLO
     \<and> dump_count state' = dump_count state + int (length (filter (carries DUMP) datas))"
proof (induction datas arbitrary: state outs)
  case Nil
  then show ?case by simp
next
  case (Cons d ds)
  from handle_client_running_Cons [OF Cons.prems(1)]
  obtain out outs' state1 where hf: "handle_frame self d state = (Inr out, state1)"
    and rest: "handle_client self ds state1 = (outs', True, state')"
    by blast
  from Cons.prems(2) have nh: "\<not> carries HELLO d" and nhs: "\<forall>d\<in>set ds. \<not> carries HELLO d"
    by simp_all
  from accepted_step [OF hf nh Cons.prems(3)]
  have l1: "last_command state1 = Some HELLO"
    and c1: "dump_count state1 = dump_count state + (if carries DUMP d then 1 else 0)"
    by simp_all
  from Cons.IH [OF rest nhs l1] c1 show ?case by simp
qed

text \<open>
  Claim C3. On a connection whose handler has accepted a HELLO and, since then, only frames
  other than HELLO (the phase is AUTHENTICATED: \<open>last_command = HELLO\<close>), a DUMP request
  with the expected nonce is answered with DUMP_FAILED and an empty payload when it is the
  first DUMP since that HELLO, and with DUMP_OK when it is the second or a later one; the
  payload of DUMP_OK is \<open>bs\<close>, the UTF-8 encoding of the configured secret (for a secret of
  ASCII characters: one byte per character, the character's code), the secret being a
  string that \<open>str.encode\<close> accepts. The response carries the current server nonce, the
  phase stays AUTHENTICATED, and the response is sent whenever its payload fits an encoded
  frame.
\<close>

theorem first_dump_fails_then_succeeds:
  assumes run: "handle_client self (before @ [hello] @ between) ConnectionState_init
                  = (outs, True, state)"
    and hello: "carries HELLO hello" and between: "\<forall>d\<in>set between. \<not> carries HELLO d"
    and dump: "decode data = Inr fr" "cmd fr = DUMP" "nonce fr = expected_client_nonce state"
    and enc: "str_encode (secret self) = Inr bs"
  shows "last_command state = Some HELLO
       \<and> ((\<forall>c\<in>set (secret self). c < 128) \<longrightarrow> bs = map of_nat (secret self))
       \<and> (\<exists>r state'. process_command self fr state = (Inr r, state')
             \<and> last_command state' = Some HELLO
             \<and> nonce r = server_nonce state
             \<and> (if \<forall>d\<in>set between. \<not> carries DUMP d
                 then cmd r = DUMP_FAILED \<and> payload r = []
                 else cmd r = DUMP_OK \<and> payload r = bs)
             \<and> (length (payload r) \<le> 49112 \<longrightarrow> decode (wire r) = Inr r)
             \<and> handle_client self (before @ [hello] @ between @ [data]) ConnectionState_init
                 = (if length (payload r) \<le> 49112 then (outs @ [wire r], True, state')
                    else (outs, False, state')))"
proof -
  from handle_client_running_append [OF run]
  obtain outs1 outs2 state1
    where r1: "handle_client self before ConnectionState_init = (outs1, True, state1)"
      and r2: "handle_client self ([hello] @ between) state1 = (outs2, True, state)"
    by blast
  from handle_client_running_Cons [of self hello between state1 outs2 state] r2
  obtain out outs3 state2 where hf: "handle_frame self hello state1 = (Inr out, state2)"
    and r3: "handle_client self between state2 = (outs3, True, state)"
    by auto
  from accepted_hello [OF hf hello]
  have l2: "last_command state2 = Some HELLO" and c2: "dump_count state2 = 0"
    by simp_all
  from accepted_run [OF r3 between l2] c2
  have l: "last_command state = Some HELLO"
    and c: "dump_count state = int (length (filter (carries DUMP) between))"
    by simp_all
  have none: "(\<forall>d\<in>set between. \<not> carries DUMP d) \<longleftrightarrow> dump_count state = 0"
    by (simp add: c filter_empty_conv)
  have inv: "connection_invariant state"
    using handle_client_invariant [OF invariant_init, of self "before @ [hello] @ between"] run
    by simp
  from decode_nonce_range [OF dump(1)] have rng: "nonce fr < 4294967296" by simp
  have "\<exists>r. (if dump_count state = 0 then Frame DUMP_FAILED (server_nonce state) []
               else Frame DUMP_OK (server_nonce state) bs) = Inr r
          \<and> process_command self fr state
               = (Inr r, advance (state\<lparr>dump_count := dump_count state + 1\<rparr>))"
  proof (cases "dump_count state = 0")
    case True
    from process_dump_first [OF inv dump(3) rng dump(2) l True, of self] True
    show ?thesis by simp
  next
    case False
    from process_dump_later [OF inv dump(3) rng dump(2) l False enc] False
    show ?thesis by simp
  qed
  then obtain r where r: "(if dump_count state = 0 then Frame DUMP_FAILED (server_nonce state) []
               else Frame DUMP_OK (server_nonce state) bs) = Inr r"
    and p: "process_command self fr state
               = (Inr r, advance (state\<lparr>dump_count := dump_count state + 1\<rparr>))"
    by blast
  define state' where "state' = advance (state\<lparr>dump_count := dump_count state + 1\<rparr>)"
  have l': "last_command state' = Some HELLO"
    by (simp add: state'_def advance_def l)
  have wf: "Frame (cmd r) (nonce r) (payload r) = Inr r"
    using r by (auto split: if_splits intro: Frame_fields)
  have fields: "nonce r = server_nonce state"
    "if dump_count state = 0 then cmd r = DUMP_FAILED \<and> payload r = []
     else cmd r = DUMP_OK \<and> payload r = bs"
    using r by (auto split: if_splits dest!: Frame_Inr(2))
  have app: "handle_client self (before @ [hello] @ between @ [data]) ConnectionState_init
      = (case handle_client self [data] state of
           (outs2, running, st) \<Rightarrow> (outs @ outs2, running, st))"
    using handle_client_append [OF run, of "[data]"] by simp
  have sent: "handle_client self (before @ [hello] @ between @ [data]) ConnectionState_init
      = (if length (payload r) \<le> 49112 then (outs @ [wire r], True, state')
         else (outs, False, state'))"
  proof (cases "length (payload r) \<le> 49112")
    case True
    have "handle_frame self data state = (Inr (wire r), state')"
      unfolding state'_def by (rule handle_frame_accepted [OF dump(1) p wf True])
    then show ?thesis unfolding app using True by simp
  next
    case False
    then have "65535 < length (b64encode (binary_frame r))"
      using b64_limit [of "length (payload r)"]
      by (simp add: length_b64_binary_frame [OF wf] not_le [symmetric])
    then have "\<exists>l. encode r = Inl (ProtocolError (FrameTooLarge l))"
      by (simp add: encode_eq [OF wf])
    then have "\<exists>e. handle_frame self data state = (Inl e, state')"
      by (auto simp: handle_frame_decoded [OF dump(1)] p state'_def)
    then show ?thesis unfolding app using False by auto
  qed
  have dec: "length (payload r) \<le> 49112 \<longrightarrow> decode (wire r) = Inr r"
    by (simp add: decode_wire_frame [OF wf])
  have ascii: "(\<forall>c\<in>set (secret self). c < 128) \<longrightarrow> bs = map of_nat (secret self)"
    using enc by (auto dest: str_encode_ascii)
  from p have p': "process_command self fr state = (Inr r, state')"
    by (simp add: state'_def)
  have ex: "\<exists>r state'. process_command self fr state = (Inr r, state')
             \<and> last_command state' = Some HELLO
             \<and> nonce r = server_nonce state
             \<and> (if \<forall>d\<in>set between. \<not> carries DUMP d
                 then cmd r = DUMP_FAILED \<and> payload r = []
                 else cmd r = DUMP_OK \<and> payload r = bs)
             \<and> (length (payload r) \<le> 49112 \<longrightarrow> decode (wire r) = Inr r)
             \<and> handle_client self (before @ [hello] @ between @ [data]) ConnectionState_init
                 = (if length (payload r) \<le> 49112 then (outs @ [wire r], True, state')
                    else (outs, False, state'))"
    unfolding none using p' l' fields dec sent by blast
  show ?thesis
    by (rule conjI [OF l conjI [OF ascii ex]])
qed

lemma step_accepted:
  assumes "Frame c n p = Inr fr" and "length p \<le> 49112"
    and "process_command self fr state = (Inr r, state')"
    and "Frame c' n' p' = Inr r" and "length p' \<le> 49112"
  shows "handle_frame self (wire fr) state = (Inr (wire r), state')"
  by (rule handle_frame_accepted [OF decode_wire_frame [OF assms(1,2)] assms(3,4,5)])

theorem first_dump_fails_then_succeeds_witness:
  "handle_client MiniTelServer_init
     ([] @ [wire \<lparr>cmd = 1, nonce = 0, payload = [], hash = sha256 [1, 0, 0, 0, 0]\<rparr>]
         @ [wire \<lparr>cmd = 2, nonce = 2, payload = [], hash = sha256 [2, 0, 0, 0, 2]\<rparr>]
         @ [wire \<lparr>cmd = 2, nonce = 4, payload = [], hash = sha256 [2, 0, 0, 0, 4]\<rparr>])
     ConnectionState_init
   = ([wire \<lparr>cmd = 129, nonce = 1, payload = [], hash = sha256 [129, 0, 0, 0, 1]\<rparr>,
       wire \<lparr>cmd = 130, nonce = 3, payload = [], hash = sha256 [130, 0, 0, 0, 3]\<rparr>,
       wire \<lparr>cmd = 131, nonce = 5,
             payload = [70, 76, 65, 71, 123, 77, 73, 78, 73, 84, 69, 76, 95, 77, 65, 83, 84, 69, 82, 95, 50, 48, 50, 53, 125],
             hash = sha256 [131, 0, 0, 0, 5,
                            70, 76, 65, 71, 123, 77, 73, 78, 73, 84, 69, 76, 95, 77, 65, 83, 84, 69, 82, 95, 50, 48, 50, 53, 125]\<rparr>],
      True,
      \<lparr>expected_client_nonce = 6, server_nonce = 7, last_command = Some HELLO, dump_count = 2\<rparr>)
   \<and> handle_client \<lparr>secret = [0xE9, 0x20AC]\<rparr>
     ([] @ [wire \<lparr>cmd = 1, nonce = 0, payload = [], hash = sha256 [1, 0, 0, 0, 0]\<rparr>]
         @ [wire \<lparr>cmd = 2, nonce = 2, payload = [], hash = sha256 [2, 0, 0, 0, 2]\<rparr>]
         @ [wire \<lparr>cmd = 2, nonce = 4, payload = [], hash = sha256 [2, 0, 0, 0, 4]\<rparr>])
     ConnectionState_init
   = ([wire \<lparr>cmd = 129, nonce = 1, payload = [], hash = sha256 [129, 0, 0, 0, 1]\<rparr>,
       wire \<lparr>cmd = 130, nonce = 3, payload = [], hash = sha256 [130, 0, 0, 0, 3]\<rparr>,
       wire \<lparr>cmd = 131, nonce = 5, payload = [0xC3, 0xA9, 0xE2, 0x82, 0xAC],
             hash = sha256 [131, 0, 0, 0, 5, 0xC3, 0xA9, 0xE2, 0x82, 0xAC]\<rparr>],
      True,
      \<lparr>expected_client_nonce = 6, server_nonce = 7, last_command = Some HELLO, dump_count = 2\<rparr>)"
proof -
  let ?h0 = "\<lparr>cmd = 1, nonce = 0, payload = [], hash = sha256 [1, 0, 0, 0, 0]\<rparr>"
  let ?d2 = "\<lparr>cmd = 2, nonce = 2, payload = [], hash = sha256 [2, 0, 0, 0, 2]\<rparr>"
  let ?d4 = "\<lparr>cmd = 2, nonce = 4, payload = [], hash = sha256 [2, 0, 0, 0, 4]\<rparr>"
  let ?a1 = "\<lparr>cmd = 129, nonce = 1, payload = [], hash = sha256 [129, 0, 0, 0, 1]\<rparr>"
  let ?f3 = "\<lparr>cmd = 130, nonce = 3, payload = [], hash = sha256 [130, 0, 0, 0, 3]\<rparr>"
  let ?s1 = "\<lparr>expected_client_nonce = 2, server_nonce = 3, last_command = Some HELLO, dump_count = 0\<rparr>"
  let ?s2 = "\<lparr>expected_client_nonce = 4, server_nonce = 5, last_command = Some HELLO, dump_count = 1\<rparr>"
  let ?s3 = "\<lparr>expected_client_nonce = 6, server_nonce = 7, last_command = Some HELLO, dump_count = 2\<rparr>"
  have fr: "Frame 1 0 [] = Inr ?h0" "Frame 2 2 [] = Inr ?d2" "Frame 2 4 [] = Inr ?d4"
    "Frame 129 1 [] = Inr ?a1" "Frame 130 3 [] = Inr ?f3"
    by (simp_all add: Frame_range)
  have d4: "decode (wire ?d4) = Inr ?d4"
    by (rule decode_wire_frame [OF fr(3)]) simp
  have c4: "cmd ?d4 = DUMP" and n4: "nonce ?d4 = expected_client_nonce ?s2"
    by (simp_all add: DUMP_def)
  have ch: "carries HELLO (wire ?h0)" and nh: "\<forall>d\<in>set [wire ?d2]. \<not> carries HELLO d"
    by (simp_all add: carries_def decode_wire_frame [OF fr(1)] decode_wire_frame [OF fr(2)]
        HELLO_def DUMP_def)
  have gen: "handle_client self ([] @ [wire ?h0] @ [wire ?d2] @ [wire ?d4]) ConnectionState_init
      = ([wire ?a1, wire ?f3,
          wire \<lparr>cmd = 131, nonce = 5, payload = bs, hash = sha256 ([131, 0, 0, 0, 5] @ bs)\<rparr>],
         True, ?s3)"
    if enc: "str_encode (secret self) = Inr bs" and len: "length bs \<le> 49112" for self bs
  proof -
    let ?k5 = "\<lparr>cmd = 131, nonce = 5, payload = bs, hash = sha256 ([131, 0, 0, 0, 5] @ bs)\<rparr>"
    have k5: "Frame 131 5 bs = Inr ?k5"
      by (simp add: Frame_range)
    have p1: "process_command self ?h0 ConnectionState_init = (Inr ?a1, ?s1)"
      by (simp add: process_command_def ConnectionState_init_def fr HELLO_def HELLO_ACK_def)
    have p2: "process_command self ?d2 ?s1 = (Inr ?f3, ?s2)"
      by (simp add: process_command_def fr HELLO_def DUMP_def DUMP_FAILED_def)
    have h1: "handle_frame self (wire ?h0) ConnectionState_init = (Inr (wire ?a1), ?s1)"
      by (rule step_accepted [OF fr(1) _ p1 fr(4)]) simp_all
    have h2: "handle_frame self (wire ?d2) ?s1 = (Inr (wire ?f3), ?s2)"
      by (rule step_accepted [OF fr(2) _ p2 fr(5)]) simp_all
    have run: "handle_client self ([] @ [wire ?h0] @ [wire ?d2]) ConnectionState_init
        = ([wire ?a1, wire ?f3], True, ?s2)"
      by (simp add: h1 h2)
    have p3: "process_command self ?d4 ?s2 = (Inr ?k5, ?s3)"
      by (simp add: process_command_def k5 enc HELLO_def DUMP_def DUMP_OK_def)
    from first_dump_fails_then_succeeds [OF run ch nh d4 c4 n4 enc]
    show ?thesis
      by (simp add: p3 len)
  qed
  have e2: "str_encode (secret \<lparr>secret = [0xE9, 0x20AC]\<rparr>) = Inr [0xC3, 0xA9, 0xE2, 0x82, 0xAC]"
    by (simp add: utf8_encode_char_def)
  from gen [OF str_encode_secret] gen [OF e2]
  show ?thesis
    by simp
qed

section \<open>The client sequencer\<close>

text \<open>
  Claim C4. For every client handler with counter \<open>N\<close>: creating an outbound frame (HELLO,
  DUMP or STOP_CMD) leaves the counter unchanged and, for \<open>N\<close> in the range of the 32-bit
  nonce field, the frame carries \<open>N\<close>; \<open>update_nonce\<close> with a peer nonce \<open>P\<close> fails with the
  nonce-mismatch error, counter unchanged, unless \<open>P = N + 1\<close>, in which case the counter
  becomes \<open>P + 1 = N + 2\<close>.
\<close>

theorem client_sequencer:
  "snd (create_hello_frame self) = self \<and> snd (create_dump_frame self) = self
   \<and> snd (create_stop_frame self) = self
   \<and> (0 \<le> self_nonce self \<and> self_nonce self < 2 ^ 32 \<longrightarrow>
        (\<exists>h d s. fst (create_hello_frame self) = Inr h \<and> cmd h = HELLO
             \<and> nonce h = self_nonce self \<and> payload h = []
           \<and> fst (create_dump_frame self) = Inr d \<and> cmd d = DUMP
             \<and> nonce d = self_nonce self \<and> payload d = []
           \<and> fst (create_stop_frame self) = Inr s \<and> cmd s = STOP_CMD
             \<and> nonce s = self_nonce self \<and> payload s = []))
   \<and> (received_nonce \<noteq> self_nonce self + 1 \<longrightarrow>
        update_nonce self received_nonce
          = (Inl (ProtocolError (NonceMismatch (self_nonce self + 1) received_nonce)), self))
   \<and> (received_nonce = self_nonce self + 1 \<longrightarrow>
        update_nonce self received_nonce = (Inr (), self\<lparr>self_nonce := received_nonce + 1\<rparr>)
        \<and> self_nonce (snd (update_nonce self received_nonce)) = self_nonce self + 2)"
proof -
  have "0 \<le> HELLO \<and> HELLO < 256 \<and> 0 \<le> DUMP \<and> DUMP < 256 \<and> 0 \<le> STOP_CMD \<and> STOP_CMD < 256"
    by (simp add: HELLO_def DUMP_def STOP_CMD_def)
  then show ?thesis
    by (simp add: create_hello_frame_def create_dump_frame_def create_stop_frame_def
        update_nonce_def Let_def Frame_range)
qed

theorem client_sequencer_witness:
  "snd (create_hello_frame MiniTelProtocol_init) = MiniTelProtocol_init
   \<and> (\<exists>h. fst (create_hello_frame MiniTelProtocol_init) = Inr h \<and> cmd h = HELLO \<and> nonce h = 0)
   \<and> update_nonce MiniTelProtocol_init 5
        = (Inl (ProtocolError (NonceMismatch 1 5)), MiniTelProtocol_init)
   \<and> update_nonce MiniTelProtocol_init 1 = (Inr (), \<lparr>self_nonce = 2\<rparr>)"
  using client_sequencer [of MiniTelProtocol_init 5] client_sequencer [of MiniTelProtocol_init 1]
  by (auto simp: MiniTelProtocol_init_def)

section \<open>Protocol errors and the state\<close>

text \<open>
  Claim C9. Whenever a call raises a protocol error, the mutable state is as before the
  call: \<open>update_nonce\<close> on a nonce mismatch keeps the client's counter, and
  \<open>_process_command\<close> on a nonce mismatch, a DUMP before HELLO or an unknown opcode (its
  only protocol errors) keeps \<open>expected_client_nonce\<close>, \<open>server_nonce\<close>, \<open>dump_count\<close> and
  \<open>last_command\<close>. Each of these conditions does raise its error.
\<close>

theorem protocol_error_leaves_state:
  "(\<forall>e self' . update_nonce self received_nonce = (Inl (ProtocolError e), self') \<longrightarrow>
        self' = self \<and> received_nonce \<noteq> self_nonce self + 1)
   \<and> (received_nonce \<noteq> self_nonce self + 1 \<longrightarrow>
        update_nonce self received_nonce
          = (Inl (ProtocolError (NonceMismatch (self_nonce self + 1) received_nonce)), self))
   \<and> (\<forall>e state'. process_command srv fr state = (Inl (ProtocolError e), state') \<longrightarrow>
        state' = state
        \<and> (e = InvalidNonceSequence \<or> e = DumpRequiresHelloFirst \<or> e = UnknownCommand (cmd fr)))
   \<and> (nonce fr \<noteq> expected_client_nonce state \<longrightarrow>
        process_command srv fr state = (Inl (ProtocolError InvalidNonceSequence), state))
   \<and> (nonce fr = expected_client_nonce state \<and> cmd fr = DUMP \<and> last_command state \<noteq> Some HELLO \<longrightarrow>
        process_command srv fr state = (Inl (ProtocolError DumpRequiresHelloFirst), state))
   \<and> (nonce fr = expected_client_nonce state \<and> cmd fr \<noteq> HELLO \<and> cmd fr \<noteq> DUMP
        \<and> cmd fr \<noteq> STOP_CMD \<longrightarrow>
        process_command srv fr state = (Inl (ProtocolError (UnknownCommand (cmd fr))), state))"
proof -
  have "self' = self \<and> received_nonce \<noteq> self_nonce self + 1"
    if "update_nonce self received_nonce = (Inl (ProtocolError e), self')" for e self'
    using that by (auto simp: update_nonce_def Let_def split: if_splits)
  moreover have "update_nonce self received_nonce
      = (Inl (ProtocolError (NonceMismatch (self_nonce self + 1) received_nonce)), self)"
    if "received_nonce \<noteq> self_nonce self + 1"
    using that by (simp add: update_nonce_def)
  ultimately show ?thesis
    using process_command_protocol_error [of srv fr state]
      process_command_bad_nonce [of fr state srv]
      process_dump_unauthenticated [of fr state srv]
      process_unknown [of fr state srv]
    by blast
qed

theorem protocol_error_leaves_state_witness:
  "update_nonce MiniTelProtocol_init 5
     = (Inl (ProtocolError (NonceMismatch 1 5)), MiniTelProtocol_init)
   \<and> process_command MiniTelServer_init
        \<lparr>cmd = 2, nonce = 7, payload = [], hash = sha256 [2, 0, 0, 0, 7]\<rparr> ConnectionState_init
      = (Inl (ProtocolError InvalidNonceSequence), ConnectionState_init)
   \<and> process_command MiniTelServer_init
        \<lparr>cmd = 2, nonce = 0, payload = [], hash = sha256 [2, 0, 0, 0, 0]\<rparr> ConnectionState_init
      = (Inl (ProtocolError DumpRequiresHelloFirst), ConnectionState_init)
   \<and> process_command MiniTelServer_init
        \<lparr>cmd = 9, nonce = 0, payload = [], hash = sha256 [9, 0, 0, 0, 0]\<rparr> ConnectionState_init
      = (Inl (ProtocolError (UnknownCommand 9)), ConnectionState_init)"
  using protocol_error_leaves_state [of MiniTelProtocol_init 5 MiniTelServer_init
      "\<lparr>cmd = 2, nonce = 7, payload = [], hash = sha256 [2, 0, 0, 0, 7]\<rparr>" ConnectionState_init]
    protocol_error_leaves_state [of MiniTelProtocol_init 5 MiniTelServer_init
      "\<lparr>cmd = 2, nonce = 0, payload = [], hash = sha256 [2, 0, 0, 0, 0]\<rparr>" ConnectionState_init]
    protocol_error_leaves_state [of MiniTelProtocol_init 5 MiniTelServer_init
      "\<lparr>cmd = 9, nonce = 0, payload = [], hash = sha256 [9, 0, 0, 0, 0]\<rparr>" ConnectionState_init]
  by (simp add: MiniTelProtocol_init_def ConnectionState_init_def HELLO_def DUMP_def STOP_CMD_def)

section \<open>HELLO in every phase\<close>

text \<open>
  Claim C10. A HELLO request carrying the expected nonce is accepted whatever the phase
  (no assumption on \<open>last_command\<close> or \<open>dump_count\<close>): the DUMP counter is reset to zero,
  HELLO is recorded as the last command, HELLO_ACK is sent with the current server nonce
  and both counters advance by 2; the next DUMP with the expected nonce is then answered
  with DUMP_FAILED.
\<close>

theorem hello_accepted_in_every_phase:
  assumes "connection_invariant state" and "decode data = Inr fr" and "cmd fr = HELLO"
    and "nonce fr = expected_client_nonce state"
  shows "\<exists>r. Frame HELLO_ACK (server_nonce state) [] = Inr r
           \<and> cmd r = HELLO_ACK \<and> nonce r = server_nonce state
           \<and> process_command self fr state =
               (Inr r, state\<lparr>last_command := Some HELLO, dump_count := 0,
                            expected_client_nonce := expected_client_nonce state + 2,
                            server_nonce := server_nonce state + 2\<rparr>)
           \<and> handle_frame self data state =
               (Inr (wire r), state\<lparr>last_command := Some HELLO, dump_count := 0,
                            expected_client_nonce := expected_client_nonce state + 2,
                            server_nonce := server_nonce state + 2\<rparr>)
           \<and> (\<forall>data' fr'. decode data' = Inr fr' \<and> cmd fr' = DUMP
                  \<and> nonce fr' = expected_client_nonce state + 2 \<longrightarrow>
                (\<exists>r'. Frame DUMP_FAILED (server_nonce state + 2) [] = Inr r'
                   \<and> fst (process_command self fr'
                        (state\<lparr>last_command := Some HELLO, dump_count := 0,
                            expected_client_nonce := expected_client_nonce state + 2,
                            server_nonce := server_nonce state + 2\<rparr>)) = Inr r'))"
proof -
  let ?state' = "state\<lparr>last_command := Some HELLO, dump_count := 0,
                            expected_client_nonce := expected_client_nonce state + 2,
                            server_nonce := server_nonce state + 2\<rparr>"
  from decode_nonce_range [OF assms(2)] have rng: "nonce fr < 4294967296" by simp
  from process_hello [OF assms(1,4) rng assms(3), of self]
  obtain r where r: "Frame HELLO_ACK (server_nonce state) [] = Inr r"
    and p: "process_command self fr state = (Inr r, ?state')"
    by (auto simp: advance_def)
  have fields: "cmd r = HELLO_ACK \<and> nonce r = server_nonce state"
    using Frame_Inr(2) [OF r] by simp
  have hf: "handle_frame self data state = (Inr (wire r), ?state')"
    by (rule handle_frame_accepted [OF assms(2) p r]) simp
  have inv': "connection_invariant ?state'"
    using process_command_invariant [OF assms(1), of self fr] by (simp add: p)
  have next_dump: "\<exists>r'. Frame DUMP_FAILED (server_nonce state + 2) [] = Inr r'
      \<and> fst (process_command self fr' ?state') = Inr r'"
    if "decode data' = Inr fr'" and "cmd fr' = DUMP"
      and "nonce fr' = expected_client_nonce state + 2" for data' fr'
  proof -
    from decode_nonce_range [OF that(1)] have "nonce fr' < 4294967296" by simp
    from process_dump_first [OF inv' _ this that(2), of self] that(3)
    show ?thesis by auto
  qed
  show ?thesis
    using r fields p hf next_dump by blast
qed

theorem hello_accepted_in_every_phase_witness:
  "connection_invariant \<lparr>expected_client_nonce = 4, server_nonce = 5, last_command = Some HELLO, dump_count = 2\<rparr>
   \<and> decode (wire \<lparr>cmd = 1, nonce = 4, payload = [], hash = sha256 [1, 0, 0, 0, 4]\<rparr>)
       = Inr \<lparr>cmd = 1, nonce = 4, payload = [], hash = sha256 [1, 0, 0, 0, 4]\<rparr>
   \<and> process_command MiniTelServer_init
        \<lparr>cmd = 1, nonce = 4, payload = [], hash = sha256 [1, 0, 0, 0, 4]\<rparr>
        \<lparr>expected_client_nonce = 4, server_nonce = 5, last_command = Some HELLO, dump_count = 2\<rparr>
      = (Inr \<lparr>cmd = 129, nonce = 5, payload = [], hash = sha256 [129, 0, 0, 0, 5]\<rparr>,
         \<lparr>expected_client_nonce = 6, server_nonce = 7, last_command = Some HELLO, dump_count = 0\<rparr>)"
proof -
  let ?f = "\<lparr>cmd = 1, nonce = 4, payload = [], hash = sha256 [1, 0, 0, 0, 4]\<rparr>"
  let ?s = "\<lparr>expected_client_nonce = 4, server_nonce = 5, last_command = Some HELLO, dump_count = 2\<rparr>"
  have f: "Frame 1 4 [] = Inr ?f" by (simp add: Frame_range)
  have d: "decode (wire ?f) = Inr ?f"
    by (rule decode_wire_frame [OF f]) simp
  have i: "connection_invariant ?s" by (simp add: connection_invariant_def)
  have r: "Frame HELLO_ACK 5 [] = Inr \<lparr>cmd = 129, nonce = 5, payload = [], hash = sha256 [129, 0, 0, 0, 5]\<rparr>"
    by (simp add: Frame_range HELLO_ACK_def)
  from hello_accepted_in_every_phase [OF i d, of MiniTelServer_init]
  show ?thesis using d i r by (auto simp: HELLO_def)
qed

section \<open>The nonce sequence\<close>

lemma handle_client_Cons_rejected:
  "handle_frame self data state = (Inl e, state') \<Longrightarrow>
     handle_client self (data # rest) state = ([], False, state')"
  by simp

lemma handle_client_Cons_accepted:
  "handle_frame self data state = (Inr out, state') \<Longrightarrow>
     handle_client self (data # rest) state =
       (case handle_client self rest state' of
          (outs, running, st) \<Rightarrow> (out # outs, running, st))"
  by simp

lemma bad_nonce_rejected:
  assumes "decode data = Inr fr" and "nonce fr \<noteq> expected_client_nonce state"
  shows "handle_frame self data state = (Inl (ProtocolError InvalidNonceSequence), state)"
  by (rule handle_frame_rejected [OF assms(1) process_command_bad_nonce [OF assms(2)]])

text \<open>
  Claim C5. On a fresh connection of a server whose secret has the UTF-8 encoding \<open>bs\<close>,
  of at most 49112 bytes (the largest payload of an encoded frame), for requests HELLO,
  DUMP, DUMP, STOP_CMD: when the requests carry the nonces 0, 2, 4, 6 all four are
  answered, with HELLO_ACK, DUMP_FAILED, DUMP_OK and STOP_OK carrying the nonces 1, 3, 5,
  7, and the counters end at 8 and 9; otherwise the responses up to the first deviating
  request are sent and the connection is closed. In general, a command that returns a response was received with the expected
  nonce, answers with the current server nonce and advances both counters by exactly 2; a
  command that raises leaves both counters as they are (so they never decrease); and a
  request whose nonce differs from the expected one is rejected.
\<close>

theorem nonce_sequence:
  assumes d1: "decode d1 = Inr f1" "cmd f1 = HELLO"
    and d2: "decode d2 = Inr f2" "cmd f2 = DUMP"
    and d3: "decode d3 = Inr f3" "cmd f3 = DUMP"
    and d4: "decode d4 = Inr f4" "cmd f4 = STOP_CMD"
    and enc: "str_encode (secret self) = Inr bs" and small: "length bs \<le> 49112"
  shows "(\<exists>r1 r2 r3 r4. Frame HELLO_ACK 1 [] = Inr r1 \<and> Frame DUMP_FAILED 3 [] = Inr r2
            \<and> Frame DUMP_OK 5 bs = Inr r3 \<and> Frame STOP_OK 7 [] = Inr r4
            \<and> (if nonce f1 = 0 \<and> nonce f2 = 2 \<and> nonce f3 = 4 \<and> nonce f4 = 6
                then handle_client self [d1, d2, d3, d4] ConnectionState_init
                       = ([wire r1, wire r2, wire r3, wire r4], True,
                          \<lparr>expected_client_nonce = 8, server_nonce = 9,
                            last_command = Some HELLO, dump_count = 2\<rparr>)
                else \<exists>st. handle_client self [d1, d2, d3, d4] ConnectionState_init
                       = (take (length (takeWhile id
                              [nonce f1 = 0, nonce f2 = 2, nonce f3 = 4, nonce f4 = 6]))
                            [wire r1, wire r2, wire r3, wire r4], False, st)))
       \<and> (\<forall>fr state.
            case process_command self fr state of
              (Inl e, state') \<Rightarrow> expected_client_nonce state' = expected_client_nonce state
                  \<and> server_nonce state' = server_nonce state
            | (Inr r, state') \<Rightarrow> nonce fr = expected_client_nonce state
                  \<and> nonce r = server_nonce state
                  \<and> expected_client_nonce state' = expected_client_nonce state + 2
                  \<and> server_nonce state' = server_nonce state + 2)
       \<and> (\<forall>fr state. nonce fr \<noteq> expected_client_nonce state \<longrightarrow>
            process_command self fr state = (Inl (ProtocolError InvalidNonceSequence), state))"
proof -
  define s1 where "s1 = \<lparr>expected_client_nonce = 2, server_nonce = 3,
    last_command = Some HELLO, dump_count = 0\<rparr>"
  define s2 where "s2 = \<lparr>expected_client_nonce = 4, server_nonce = 5,
    last_command = Some HELLO, dump_count = 1\<rparr>"
  define s3 where "s3 = \<lparr>expected_client_nonce = 6, server_nonce = 7,
    last_command = Some HELLO, dump_count = 2\<rparr>"
  define s4 where "s4 = \<lparr>expected_client_nonce = 8, server_nonce = 9,
    last_command = Some HELLO, dump_count = 2\<rparr>"
  obtain r1 r2 r3 r4 where r: "Frame HELLO_ACK 1 [] = Inr r1" "Frame DUMP_FAILED 3 [] = Inr r2"
    "Frame DUMP_OK 5 bs = Inr r3" "Frame STOP_OK 7 [] = Inr r4"
    by (simp add: Frame_range command_codes)
  have p1: "process_command self f1 ConnectionState_init = (Inr r1, s1)" if "nonce f1 = 0"
    using that d1(2) r(1) by (simp add: process_command_def ConnectionState_init_def s1_def)
  have p2: "process_command self f2 s1 = (Inr r2, s2)" if "nonce f2 = 2"
    using that d2(2) r(2) by (simp add: process_command_def s1_def s2_def command_codes)
  have p3: "process_command self f3 s2 = (Inr r3, s3)" if "nonce f3 = 4"
    using that d3(2) r(3) enc by (simp add: process_command_def s2_def s3_def command_codes)
  have p4: "process_command self f4 s3 = (Inr r4, s4)" if "nonce f4 = 6"
    using that d4(2) r(4) by (simp add: process_command_def s3_def s4_def command_codes)
  have a1: "handle_frame self d1 ConnectionState_init = (Inr (wire r1), s1)" if "nonce f1 = 0"
    by (rule handle_frame_accepted [OF d1(1) p1 [OF that] r(1)]) simp
  have a2: "handle_frame self d2 s1 = (Inr (wire r2), s2)" if "nonce f2 = 2"
    by (rule handle_frame_accepted [OF d2(1) p2 [OF that] r(2)]) simp
  have a3: "handle_frame self d3 s2 = (Inr (wire r3), s3)" if "nonce f3 = 4"
    by (rule handle_frame_accepted [OF d3(1) p3 [OF that] r(3) small])
  have a4: "handle_frame self d4 s3 = (Inr (wire r4), s4)" if "nonce f4 = 6"
    by (rule handle_frame_accepted [OF d4(1) p4 [OF that] r(4)]) simp
  have b1: "handle_frame self d1 ConnectionState_init
      = (Inl (ProtocolError InvalidNonceSequence), ConnectionState_init)" if "nonce f1 \<noteq> 0"
    by (rule bad_nonce_rejected [OF d1(1)]) (simp add: that ConnectionState_init_def)
  have b2: "handle_frame self d2 s1 = (Inl (ProtocolError InvalidNonceSequence), s1)"
    if "nonce f2 \<noteq> 2"
    by (rule bad_nonce_rejected [OF d2(1)]) (simp add: that s1_def)
  have b3: "handle_frame self d3 s2 = (Inl (ProtocolError InvalidNonceSequence), s2)"
    if "nonce f3 \<noteq> 4"
    by (rule bad_nonce_rejected [OF d3(1)]) (simp add: that s2_def)
  have b4: "handle_frame self d4 s3 = (Inl (ProtocolError InvalidNonceSequence), s3)"
    if "nonce f4 \<noteq> 6"
    by (rule bad_nonce_rejected [OF d4(1)]) (simp add: that s3_def)
  have run: "if nonce f1 = 0 \<and> nonce f2 = 2 \<and> nonce f3 = 4 \<and> nonce f4 = 6
      then handle_client self [d1, d2, d3, d4] ConnectionState_init
             = ([wire r1, wire r2, wire r3, wire r4], True, s4)
      else \<exists>st. handle_client self [d1, d2, d3, d4] ConnectionState_init
             = (take (length (takeWhile id
                    [nonce f1 = 0, nonce f2 = 2, nonce f3 = 4, nonce f4 = 6]))
                  [wire r1, wire r2, wire r3, wire r4], False, st)"
  proof (cases "nonce f1 = 0")
    case n1: False
    then show ?thesis by (simp add: b1)
  next
    case n1: True
    show ?thesis
    proof (cases "nonce f2 = 2")
      case n2: False
      then show ?thesis by (simp add: n1 a1 [OF n1] b2)
    next
      case n2: True
      show ?thesis
      proof (cases "nonce f3 = 4")
        case n3: False
        then show ?thesis by (simp add: n1 n2 a1 [OF n1] a2 [OF n2] b3)
      next
        case n3: True
        show ?thesis
        proof (cases "nonce f4 = 6")
          case n4: False
          then show ?thesis by (simp add: n1 n2 n3 a1 [OF n1] a2 [OF n2] a3 [OF n3] b4)
        next
          case n4: True
          then show ?thesis by (simp add: n1 n2 n3 a1 [OF n1] a2 [OF n2] a3 [OF n3] a4)
        qed
      qed
    qed
  qed
  have A: "\<exists>r1 r2 r3 r4. Frame HELLO_ACK 1 [] = Inr r1 \<and> Frame DUMP_FAILED 3 [] = Inr r2
            \<and> Frame DUMP_OK 5 bs = Inr r3 \<and> Frame STOP_OK 7 [] = Inr r4
            \<and> (if nonce f1 = 0 \<and> nonce f2 = 2 \<and> nonce f3 = 4 \<and> nonce f4 = 6
                then handle_client self [d1, d2, d3, d4] ConnectionState_init
                       = ([wire r1, wire r2, wire r3, wire r4], True,
                          \<lparr>expected_client_nonce = 8, server_nonce = 9,
                            last_command = Some HELLO, dump_count = 2\<rparr>)
                else \<exists>st. handle_client self [d1, d2, d3, d4] ConnectionState_init
                       = (take (length (takeWhile id
                              [nonce f1 = 0, nonce f2 = 2, nonce f3 = 4, nonce f4 = 6]))
                            [wire r1, wire r2, wire r3, wire r4], False, st))"
    using r run unfolding s4_def by (intro exI conjI)
  have B: "\<forall>fr state.
            case process_command self fr state of
              (Inl e, state') \<Rightarrow> expected_client_nonce state' = expected_client_nonce state
                  \<and> server_nonce state' = server_nonce state
            | (Inr r, state') \<Rightarrow> nonce fr = expected_client_nonce state
                  \<and> nonce r = server_nonce state
                  \<and> expected_client_nonce state' = expected_client_nonce state + 2
                  \<and> server_nonce state' = server_nonce state + 2"
    by (intro allI) (rule process_command_nonces)
  have C: "\<forall>fr state. nonce fr \<noteq> expected_client_nonce state \<longrightarrow>
            process_command self fr state = (Inl (ProtocolError InvalidNonceSequence), state)"
    by (intro allI impI) (rule process_command_bad_nonce)
  show ?thesis
    by (rule conjI [OF A conjI [OF B C]])
qed

theorem nonce_sequence_witness:
  "handle_client MiniTelServer_init
     [wire \<lparr>cmd = 1, nonce = 0, payload = [], hash = sha256 [1, 0, 0, 0, 0]\<rparr>,
      wire \<lparr>cmd = 2, nonce = 2, payload = [], hash = sha256 [2, 0, 0, 0, 2]\<rparr>,
      wire \<lparr>cmd = 2, nonce = 4, payload = [], hash = sha256 [2, 0, 0, 0, 4]\<rparr>,
      wire \<lparr>cmd = 4, nonce = 6, payload = [], hash = sha256 [4, 0, 0, 0, 6]\<rparr>]
     ConnectionState_init
   = ([wire \<lparr>cmd = 129, nonce = 1, payload = [], hash = sha256 [129, 0, 0, 0, 1]\<rparr>,
       wire \<lparr>cmd = 130, nonce = 3, payload = [], hash = sha256 [130, 0, 0, 0, 3]\<rparr>,
       wire \<lparr>cmd = 131, nonce = 5,
             payload = [70, 76, 65, 71, 123, 77, 73, 78, 73, 84, 69, 76, 95, 77, 65, 83, 84, 69, 82, 95, 50, 48, 50, 53, 125],
             hash = sha256 [131, 0, 0, 0, 5,
                            70, 76, 65, 71, 123, 77, 73, 78, 73, 84, 69, 76, 95, 77, 65, 83, 84, 69, 82, 95, 50, 48, 50, 53, 125]\<rparr>,
       wire \<lparr>cmd = 132, nonce = 7, payload = [], hash = sha256 [132, 0, 0, 0, 7]\<rparr>],
      True,
      \<lparr>expected_client_nonce = 8, server_nonce = 9, last_command = Some HELLO, dump_count = 2\<rparr>)
   \<and> handle_client MiniTelServer_init
     [wire \<lparr>cmd = 1, nonce = 0, payload = [], hash = sha256 [1, 0, 0, 0, 0]\<rparr>,
      wire \<lparr>cmd = 2, nonce = 3, payload = [], hash = sha256 [2, 0, 0, 0, 3]\<rparr>,
      wire \<lparr>cmd = 2, nonce = 4, payload = [], hash = sha256 [2, 0, 0, 0, 4]\<rparr>,
      wire \<lparr>cmd = 4, nonce = 6, payload = [], hash = sha256 [4, 0, 0, 0, 6]\<rparr>]
     ConnectionState_init
   = ([wire \<lparr>cmd = 129, nonce = 1, payload = [], hash = sha256 [129, 0, 0, 0, 1]\<rparr>], False,
      snd (snd (handle_client MiniTelServer_init
     [wire \<lparr>cmd = 1, nonce = 0, payload = [], hash = sha256 [1, 0, 0, 0, 0]\<rparr>,
      wire \<lparr>cmd = 2, nonce = 3, payload = [], hash = sha256 [2, 0, 0, 0, 3]\<rparr>,
      wire \<lparr>cmd = 2, nonce = 4, payload = [], hash = sha256 [2, 0, 0, 0, 4]\<rparr>,
      wire \<lparr>cmd = 4, nonce = 6, payload = [], hash = sha256 [4, 0, 0, 0, 6]\<rparr>]
     ConnectionState_init)))"
proof -
  let ?h0 = "\<lparr>cmd = 1, nonce = 0, payload = [], hash = sha256 [1, 0, 0, 0, 0]\<rparr>"
  let ?d2 = "\<lparr>cmd = 2, nonce = 2, payload = [], hash = sha256 [2, 0, 0, 0, 2]\<rparr>"
  let ?d3 = "\<lparr>cmd = 2, nonce = 3, payload = [], hash = sha256 [2, 0, 0, 0, 3]\<rparr>"
  let ?d4 = "\<lparr>cmd = 2, nonce = 4, payload = [], hash = sha256 [2, 0, 0, 0, 4]\<rparr>"
  let ?t6 = "\<lparr>cmd = 4, nonce = 6, payload = [], hash = sha256 [4, 0, 0, 0, 6]\<rparr>"
  have fr: "Frame 1 0 [] = Inr ?h0" "Frame 2 2 [] = Inr ?d2" "Frame 2 3 [] = Inr ?d3"
    "Frame 2 4 [] = Inr ?d4" "Frame 4 6 [] = Inr ?t6"
    by (simp_all add: Frame_range)
  have d: "decode (wire ?h0) = Inr ?h0" "decode (wire ?d2) = Inr ?d2" "decode (wire ?d3) = Inr ?d3"
    "decode (wire ?d4) = Inr ?d4" "decode (wire ?t6) = Inr ?t6"
    by (simp_all add: decode_wire_frame [OF fr(1)] decode_wire_frame [OF fr(2)]
        decode_wire_frame [OF fr(3)] decode_wire_frame [OF fr(4)] decode_wire_frame [OF fr(5)])
  have c: "cmd ?h0 = HELLO" "cmd ?d2 = DUMP" "cmd ?d3 = DUMP" "cmd ?d4 = DUMP" "cmd ?t6 = STOP_CMD"
    by (simp_all add: HELLO_def DUMP_def STOP_CMD_def)
  have s: "length [70, 76, 65, 71, 123, 77, 73, 78, 73, 84, 69, 76, 95, 77, 65, 83, 84, 69, 82, 95, 50, 48, 50, 53, 125 :: byte] \<le> 49112"
    by simp
  have rs: "Frame HELLO_ACK 1 [] = Inr \<lparr>cmd = 129, nonce = 1, payload = [], hash = sha256 [129, 0, 0, 0, 1]\<rparr>"
    "Frame DUMP_FAILED 3 [] = Inr \<lparr>cmd = 130, nonce = 3, payload = [], hash = sha256 [130, 0, 0, 0, 3]\<rparr>"
    "Frame DUMP_OK 5 [70, 76, 65, 71, 123, 77, 73, 78, 73, 84, 69, 76, 95, 77, 65, 83, 84, 69, 82, 95, 50, 48, 50, 53, 125]
       = Inr \<lparr>cmd = 131, nonce = 5,
             payload = [70, 76, 65, 71, 123, 77, 73, 78, 73, 84, 69, 76, 95, 77, 65, 83, 84, 69, 82, 95, 50, 48, 50, 53, 125],
             hash = sha256 [131, 0, 0, 0, 5,
                            70, 76, 65, 71, 123, 77, 73, 78, 73, 84, 69, 76, 95, 77, 65, 83, 84, 69, 82, 95, 50, 48, 50, 53, 125]\<rparr>"
    "Frame STOP_OK 7 [] = Inr \<lparr>cmd = 132, nonce = 7, payload = [], hash = sha256 [132, 0, 0, 0, 7]\<rparr>"
    by (simp_all add: Frame_range HELLO_ACK_def DUMP_FAILED_def DUMP_OK_def STOP_OK_def)
  from nonce_sequence [OF d(1) c(1) d(2) c(2) d(4) c(4) d(5) c(5) str_encode_secret s,
      THEN conjunct1]
    nonce_sequence [OF d(1) c(1) d(3) c(3) d(4) c(4) d(5) c(5) str_encode_secret s,
      THEN conjunct1]
  show ?thesis
    unfolding rs by (auto simp: HELLO_def)
qed

section \<open>Connecting with retries\<close>

lemma connect_loop_success:
  "\<forall>i<j. \<not> transport i \<Longrightarrow> transport j \<Longrightarrow> 0 \<le> connection_attempts self \<Longrightarrow>
   connection_attempts self + int j < max_retries self \<Longrightarrow>
   connect_loop transport self slept =
     (True, self\<lparr>connection_attempts := connection_attempts self + int j, connected := True\<rparr>,
      slept @ map (\<lambda>k. 2 ^ k)
        [nat (connection_attempts self) + 1 ..< nat (connection_attempts self) + j + 1])"
proof (induction j arbitrary: transport self slept)
  case 0
  then show ?case
    by (subst connect_loop.simps) simp
next
  case (Suc j)
  let ?self = "self\<lparr>connection_attempts := connection_attempts self + 1\<rparr>"
  let ?slept = "slept @ [2 ^ nat (connection_attempts self + 1)]"
  from Suc.prems have first: "\<not> transport 0" by simp
  from Suc.prems have more: "connection_attempts self + 1 < max_retries self"
    and lt: "connection_attempts self < max_retries self"
    by simp_all
  have "connect_loop (\<lambda>i. transport (Suc i)) ?self ?slept =
      (True, ?self\<lparr>connection_attempts := connection_attempts ?self + int j, connected := True\<rparr>,
       ?slept @ map (\<lambda>k. 2 ^ k)
         [nat (connection_attempts ?self) + 1 ..< nat (connection_attempts ?self) + j + 1])"
    using Suc.prems by (intro Suc.IH) auto
  moreover have "nat (connection_attempts self + 1) = nat (connection_attempts self) + 1"
    using Suc.prems(3) by simp
  moreover have "[nat (connection_attempts self) + 1 ..< nat (connection_attempts self) + Suc j + 1]
      = (nat (connection_attempts self) + 1)
        # [nat (connection_attempts self) + 1 + 1 ..< nat (connection_attempts self) + 1 + j + 1]"
    by (simp add: upt_conv_Cons)
  ultimately show ?case
    using first more lt
    by (subst connect_loop.simps) (simp add: add.assoc)
qed

lemma connect_loop_failure:
  "\<forall>i. connection_attempts self + int i < max_retries self \<longrightarrow> \<not> transport i \<Longrightarrow>
   0 \<le> connection_attempts self \<Longrightarrow>
   connect_loop transport self slept =
     (False,
      self\<lparr>connection_attempts := max (connection_attempts self) (max_retries self)\<rparr>,
      slept @ map (\<lambda>k. 2 ^ k) [nat (connection_attempts self) + 1 ..< nat (max_retries self)])"
proof (induction transport self slept rule: connect_loop.induct)
  case (1 transport self slept)
  show ?case
  proof (cases "connection_attempts self < max_retries self")
    case False
    then show ?thesis
      by (subst connect_loop.simps) (simp add: max_def)
  next
    case True
    let ?self = "self\<lparr>connection_attempts := connection_attempts self + 1\<rparr>"
    let ?slept = "if connection_attempts self + 1 < max_retries self
                  then slept @ [2 ^ nat (connection_attempts self + 1)] else slept"
    from "1.prems"(1) have "connection_attempts self + int 0 < max_retries self \<longrightarrow> \<not> transport 0"
      by (rule spec)
    with True have first: "\<not> transport 0"
      by simp
    have rest: "\<forall>i. connection_attempts ?self + int i < max_retries ?self \<longrightarrow> \<not> transport (Suc i)"
      using "1.prems"(1) by (auto simp: add.assoc)
    have nn: "0 \<le> connection_attempts ?self"
      using "1.prems"(2) by simp
    have step: "connect_loop transport self slept = connect_loop (\<lambda>i. transport (Suc i)) ?self ?slept"
      using True first by (subst connect_loop.simps) simp
    have na: "nat (connection_attempts self + 1) = nat (connection_attempts self) + 1"
      using "1.prems"(2) by simp
    have "connect_loop (\<lambda>i. transport (Suc i)) ?self ?slept =
        (False, ?self\<lparr>connection_attempts := max (connection_attempts ?self) (max_retries ?self)\<rparr>,
         ?slept @ map (\<lambda>k. 2 ^ k) [nat (connection_attempts ?self) + 1 ..< nat (max_retries ?self)])"
      by (rule "1.IH" [OF True first rest nn])
    also have "?self\<lparr>connection_attempts := max (connection_attempts ?self) (max_retries ?self)\<rparr>
        = self\<lparr>connection_attempts := max (connection_attempts self) (max_retries self)\<rparr>"
      using True by (simp add: max_def)
    also have "?slept @ map (\<lambda>k. 2 ^ k) [nat (connection_attempts ?self) + 1 ..< nat (max_retries ?self)]
        = slept @ map (\<lambda>k. 2 ^ k) [nat (connection_attempts self) + 1 ..< nat (max_retries self)]"
    proof (cases "connection_attempts self + 1 < max_retries self")
      case more: True
      then have "nat (connection_attempts self) + 1 < nat (max_retries self)"
        using "1.prems"(2) by linarith
      then have "[nat (connection_attempts self) + 1 ..< nat (max_retries self)]
          = (nat (connection_attempts self) + 1)
            # [nat (connection_attempts self) + 1 + 1 ..< nat (max_retries self)]"
        by (simp add: upt_conv_Cons)
      then show ?thesis using more by (simp add: na)
    next
      case last: False
      with True have "nat (max_retries self) = nat (connection_attempts self) + 1"
        using "1.prems"(2) by linarith
      then show ?thesis using last by (simp add: na)
    qed
    finally show ?thesis
      unfolding step .
  qed
qed

text \<open>
  Claim C8. \<open>connect\<close> tries the transport at most \<open>max_retries\<close> times. When the
  first \<open>j\<close> attempts fail and attempt \<open>j + 1\<close> succeeds (within the maximum), it returns
  \<open>True\<close> at once, having slept \<open>2^k\<close> seconds after the \<open>k\<close>-th failed attempt for
  \<open>k = 1..j\<close>. When every attempt fails it returns \<open>False\<close> to its caller, after
  \<open>max_retries\<close> attempts and the sleeps \<open>2^1 .. 2^(max_retries - 1)\<close> between them
  (a failed attempt that no other attempt follows is not followed by a sleep).
\<close>

theorem connect_retries_with_backoff:
  "((\<forall>i<j. \<not> transport i) \<and> transport j \<and> int j < max_retries self \<longrightarrow>
      connect self transport =
        (True, self\<lparr>connection_attempts := int j, connected := True\<rparr>,
         map (\<lambda>k. 2 ^ k) [1..<Suc j]))
   \<and> ((\<forall>i. int i < max_retries self \<longrightarrow> \<not> transport i) \<longrightarrow>
      connect self transport =
        (False, self\<lparr>connection_attempts := max 0 (max_retries self)\<rparr>,
         map (\<lambda>k. 2 ^ k) [1..<nat (max_retries self)]))"
proof (intro conjI impI)
  assume a: "(\<forall>i<j. \<not> transport i) \<and> transport j \<and> int j < max_retries self"
  let ?self = "self\<lparr>connection_attempts := 0\<rparr>"
  from a have "connect_loop transport ?self [] =
      (True, ?self\<lparr>connection_attempts := connection_attempts ?self + int j, connected := True\<rparr>,
       [] @ map (\<lambda>k. 2 ^ k) [nat (connection_attempts ?self) + 1 ..< nat (connection_attempts ?self) + j + 1])"
    by (intro connect_loop_success) simp_all
  then show "connect self transport =
      (True, self\<lparr>connection_attempts := int j, connected := True\<rparr>, map (\<lambda>k. 2 ^ k) [1..<Suc j])"
    by (simp add: connect_def)
next
  assume a: "\<forall>i. int i < max_retries self \<longrightarrow> \<not> transport i"
  let ?self = "self\<lparr>connection_attempts := 0\<rparr>"
  from a have "connect_loop transport ?self [] =
      (False, ?self\<lparr>connection_attempts := max (connection_attempts ?self) (max_retries ?self)\<rparr>,
       [] @ map (\<lambda>k. 2 ^ k) [nat (connection_attempts ?self) + 1 ..< nat (max_retries ?self)])"
    by (intro connect_loop_failure) simp_all
  then show "connect self transport =
      (False, self\<lparr>connection_attempts := max 0 (max_retries self)\<rparr>,
       map (\<lambda>k. 2 ^ k) [1..<nat (max_retries self)])"
    by (simp add: connect_def)
qed

theorem connect_retries_with_backoff_witness:
  "connect \<lparr>max_retries = 3, connection_attempts = 0, connected = False\<rparr> (\<lambda>i. 2 \<le> i)
     = (True, \<lparr>max_retries = 3, connection_attempts = 2, connected = True\<rparr>, [2, 4])
   \<and> connect \<lparr>max_retries = 3, connection_attempts = 0, connected = False\<rparr> (\<lambda>i. False)
     = (False, \<lparr>max_retries = 3, connection_attempts = 3, connected = False\<rparr>, [2, 4])"
  using connect_retries_with_backoff [of 2 "\<lambda>i. 2 \<le> i"
      "\<lparr>max_retries = 3, connection_attempts = 0, connected = False\<rparr>"]
    connect_retries_with_backoff [of 0 "\<lambda>i. False"
      "\<lparr>max_retries = 3, connection_attempts = 0, connected = False\<rparr>"]
  by (simp add: upt_rec)

end
